theory Spec2Isabelle
  imports Main "HOL-Library.Char_ord" "HOL-Library.List_Lexorder"
begin

section \<open>dhCodex: a process-wide registry of Things keyed by UUID strings\<close>

text \<open>
  A shallow embedding of \<^verbatim>\<open>src_cpp/dhCodex.hpp\<close>.  The header keeps three pieces of
  process-wide state: the map from UUID strings to owned Things (the static local of
  \<^verbatim>\<open>_get_mapping\<close>), the mutex (the static local of \<^verbatim>\<open>_get_mutex\<close>) and the standard
  output stream it prints to.  They are the fields of the record \<open>codex\<close>, which every
  operation takes and returns.  The model is sequential: one thread runs one operation
  to its end.
\<close>

subsection \<open>Classes, Things and runtime-checked narrowing\<close>

text \<open>
  The classes of a program that uses the header form a tree under \<^verbatim>\<open>Thing\<close>: a class is
  \<^verbatim>\<open>Thing\<close> itself or is derived, under a name, from one direct base (single public
  inheritance).  \<open>is_base_of B D\<close> is \<^verbatim>\<open>std::is_base_of<B, D>\<close>: \<open>D\<close> is \<open>B\<close> or
  derives from it.
\<close>

datatype kind = Thing_kind | Derived string kind

fun is_base_of :: "kind \<Rightarrow> kind \<Rightarrow> bool" where
  "is_base_of B Thing_kind = (B = Thing_kind)"
| "is_base_of B (Derived n P) = (B = Derived n P \<or> is_base_of B P)"

text \<open>
  An object of class \<^verbatim>\<open>Thing\<close> or of a subclass: the private constant member
  \<^verbatim>\<open>_uuid\<close>, the class it was created as (its dynamic type), and, where that class
  overrides the virtual \<^verbatim>\<open>get_repr\<close>, the string the override returns.
\<close>

record thing =
  uuid :: string
  dyn_kind :: kind
  repr_override :: "string option"

definition get_uuid :: "thing \<Rightarrow> string" where
  "get_uuid t = uuid t"

text \<open>
  \<^verbatim>\<open>get_repr\<close> of the base class builds its string from \<^verbatim>\<open>typeid(*this).name()\<close>, which
  the C++ implementation chooses; the function \<open>typeid_name\<close> stands for that choice.
\<close>

definition get_repr :: "(kind \<Rightarrow> string) \<Rightarrow> thing \<Rightarrow> string" where
  "get_repr typeid_name t =
     (case repr_override t of
        Some r \<Rightarrow> r
      | None \<Rightarrow>
          [CHR ''<'', CHR 0x27] @ typeid_name (dyn_kind t) @ [CHR 0x27] @ '' object at [''
            @ get_uuid t @ '']>'')"

text \<open>
  A raw pointer \<^verbatim>\<open>T*\<close> is \<open>None\<close> (the null pointer) or \<open>Some\<close> of the Thing it points
  to.  \<^verbatim>\<open>dynamic_cast<T*>\<close> keeps a null pointer null, keeps a pointer whose object is a
  \<open>T\<close>, and turns every other pointer into the null pointer.
\<close>

definition dynamic_cast :: "kind \<Rightarrow> thing option \<Rightarrow> thing option" where
  "dynamic_cast T p =
     (case p of
        None \<Rightarrow> None
      | Some t \<Rightarrow> if is_base_of T (dyn_kind t) then Some t else None)"

subsection \<open>The ordered map\<close>

text \<open>
  \<^verbatim>\<open>std::map<const std::string, std::unique_ptr<Thing>>\<close> as the list of its entries in
  key order.  Keys are compared with \<^verbatim>\<open>std::less\<close> on \<^verbatim>\<open>std::string\<close>, the lexicographic
  order on the character codes, which is the order of \<open>string\<close> here.  \<open>map_find\<close> is
  \<^verbatim>\<open>find\<close> (with \<open>None\<close> for \<^verbatim>\<open>end()\<close>) and also \<^verbatim>\<open>at\<close> (with \<open>None\<close> where \<^verbatim>\<open>at\<close> throws),
  \<open>map_assign\<close> is \<^verbatim>\<open>m[k] = v\<close>, \<open>map_erase\<close> is \<^verbatim>\<open>erase(k)\<close> and \<open>map_size\<close> is \<^verbatim>\<open>size()\<close>.
\<close>

fun map_find :: "(string \<times> 'v) list \<Rightarrow> string \<Rightarrow> 'v option" where
  "map_find [] k = None"
| "map_find ((k', v') # m) k = (if k' = k then Some v' else map_find m k)"

fun map_assign :: "(string \<times> 'v) list \<Rightarrow> string \<Rightarrow> 'v \<Rightarrow> (string \<times> 'v) list" where
  "map_assign [] k v = [(k, v)]"
| "map_assign ((k', v') # m) k v =
     (if k < k' then (k, v) # (k', v') # m
      else if k = k' then (k, v) # m
      else (k', v') # map_assign m k v)"

fun map_erase :: "(string \<times> 'v) list \<Rightarrow> string \<Rightarrow> (string \<times> 'v) list" where
  "map_erase [] k = []"
| "map_erase ((k', v') # m) k = (if k' = k then map_erase m k else (k', v') # map_erase m k)"

definition map_size :: "(string \<times> 'v) list \<Rightarrow> nat" where
  "map_size m = length m"

subsection \<open>The global state and the lock\<close>

record codex =
  mapping :: "(string \<times> thing) list"
  mutex_locked :: bool
  cout :: string

text \<open>The state of a process that has not called the header yet.\<close>

definition codex_init :: codex where
  "codex_init = \<lparr>mapping = [], mutex_locked = False, cout = []\<rparr>"

text \<open>
  What stops a call from returning a value: locking the mutex the caller already
  holds (the call waits for ever), reading through a null pointer, and the exception
  of \<^verbatim>\<open>std::map::at\<close>.
\<close>

datatype fault = Deadlock | Null_dereference | Out_of_range

text \<open>
  \<^verbatim>\<open>std::lock_guard<std::mutex> lock{ *_get_mutex() }\<close> around a body: the mutex is taken
  before the body and released when the body returns.
\<close>

definition lock_guard ::
    "(codex \<Rightarrow> fault + ('a \<times> codex)) \<Rightarrow> codex \<Rightarrow> fault + ('a \<times> codex)" where
  "lock_guard body s =
     (if mutex_locked s then Inl Deadlock
      else case body (s\<lparr>mutex_locked := True\<rparr>) of
             Inl e \<Rightarrow> Inl e
           | Inr (r, s') \<Rightarrow> Inr (r, s'\<lparr>mutex_locked := False\<rparr>))"

subsection \<open>Minting identifiers and constructing Things\<close>

text \<open>Decimal output of a \<^verbatim>\<open>long\<close>, as \<^verbatim>\<open>std::cout << status\<close> prints it.\<close>

fun show_nat :: "nat \<Rightarrow> string" where
  "show_nat n =
     (if n < 10 then [''0123456789'' ! n]
      else show_nat (n div 10) @ [''0123456789'' ! (n mod 10)])"

definition show_long :: "int \<Rightarrow> string" where
  "show_long i = (if i < 0 then CHR ''-'' # show_nat (nat (- i)) else show_nat (nat i))"

text \<open>
  What the platform's UUID facility does in one call of \<^verbatim>\<open>_new_uuid\<close>.  On Windows,
  \<^verbatim>\<open>UuidCreate\<close> and \<^verbatim>\<open>UuidToStringA\<close> each return a status, and the second produces
  the text; on Linux \<^verbatim>\<open>uuid_generate\<close> and \<^verbatim>\<open>uuid_unparse\<close> return nothing but the text.
\<close>

datatype platform = Win32 int int string | Linux string

fun new_uuid :: "platform \<Rightarrow> codex \<Rightarrow> string \<times> codex" where
  "new_uuid (Win32 create_status string_status str) s =
     (if create_status \<noteq> 0 then
        ('''', s\<lparr>cout := cout s @ ''Unexpected error retrieveing UUID! Error code: ''
                      @ show_long create_status @ ''\<newline>''\<rparr>)
      else if string_status \<noteq> 0 then
        ('''', s\<lparr>cout := cout s @ ''Unexpected error converting UUID to string! Error code: ''
                      @ show_long string_status @ ''\<newline>''\<rparr>)
      else (str, s))"
| "new_uuid (Linux uuid_str) s = (uuid_str, s)"

text \<open>The constructor \<^verbatim>\<open>Thing() : _uuid(_new_uuid())\<close>.\<close>

definition Thing :: "platform \<Rightarrow> codex \<Rightarrow> thing \<times> codex" where
  "Thing p s =
     (case new_uuid p s of
        (u, s') \<Rightarrow> (\<lparr>uuid = u, dyn_kind = Thing_kind, repr_override = None\<rparr>, s'))"

subsection \<open>Lookup\<close>

definition find_one_by_uuid__unsafe :: "kind \<Rightarrow> string \<Rightarrow> codex \<Rightarrow> thing option" where
  "find_one_by_uuid__unsafe T u s =
     (case map_find (mapping s) u of
        Some second \<Rightarrow> dynamic_cast T (Some second)
      | None \<Rightarrow> None)"

definition find_one_by_uuid ::
    "kind \<Rightarrow> string \<Rightarrow> codex \<Rightarrow> fault + (thing option \<times> codex)" where
  "find_one_by_uuid T u s = lock_guard (\<lambda>s. Inr (find_one_by_uuid__unsafe T u s, s)) s"

definition get__unsafe :: "kind \<Rightarrow> string \<Rightarrow> codex \<Rightarrow> thing option" where
  "get__unsafe T u s =
     (let result = find_one_by_uuid__unsafe Thing_kind u s
      in case result of
           Some r \<Rightarrow> dynamic_cast T (Some r)
         | None \<Rightarrow> None)"

text \<open>
  The body of the gated \<^verbatim>\<open>get<T>\<close> is \<^verbatim>\<open>return get_unsafe<T>(uuid);\<close> under the lock.
  The header declares \<^verbatim>\<open>get__unsafe\<close> and no \<^verbatim>\<open>get_unsafe\<close>, so no instance of the
  template can be compiled: \<open>get\<close> has no function to offer, only the name it misses.
\<close>

datatype 'a template = Ill_formed string | Well_formed 'a

definition get ::
    "kind \<Rightarrow> string \<Rightarrow> (codex \<Rightarrow> fault + (thing option \<times> codex)) template" where
  "get T u = Ill_formed ''get_unsafe''"

subsection \<open>Insertion\<close>

text \<open>
  \<^verbatim>\<open>add__unsafe<T>(std::unique_ptr<T> ptr)\<close>.  The static assertion that \<open>T\<close> derives from
  \<^verbatim>\<open>Thing\<close> holds of every \<open>kind\<close>.  The pointer is read without a check.
\<close>

definition add__unsafe ::
    "kind \<Rightarrow> thing option \<Rightarrow> codex \<Rightarrow> fault + (thing option \<times> codex)" where
  "add__unsafe T ptr s =
     (case ptr of
        None \<Rightarrow> Inl Null_dereference
      | Some t \<Rightarrow>
          (let u = get_uuid t;
               s' = s\<lparr>mapping := map_assign (mapping s) u t\<rparr>
           in case map_find (mapping s') u of
                None \<Rightarrow> Inl Out_of_range
              | Some p \<Rightarrow> Inr (dynamic_cast T (Some p), s')))"

definition add :: "kind \<Rightarrow> thing option \<Rightarrow> codex \<Rightarrow> fault + (thing option \<times> codex)" where
  "add T ptr s = lock_guard (add__unsafe T ptr) s"

text \<open>
  \<^verbatim>\<open>Thing::create\<close>: the argument \<^verbatim>\<open>std::make_unique<Thing>()\<close> is built first, then
  \<^verbatim>\<open>add\<close> is called.
\<close>

definition create :: "platform \<Rightarrow> codex \<Rightarrow> fault + (thing option \<times> codex)" where
  "create p s = (case Thing p s of (t, s') \<Rightarrow> add Thing_kind (Some t) s')"

subsection \<open>Removal and size\<close>

text \<open>
  \<^verbatim>\<open>erase\<close> drops the \<^verbatim>\<open>unique_ptr\<close> of the entry, which destroys the Thing: the virtual
  destructor runs inside the call of \<^verbatim>\<open>erase\<close>.  The destructor \<^verbatim>\<open>~Thing\<close> of the header
  has an empty body.  \<open>remove__unsafe\<close> and \<open>add__unsafe\<close>, and the gated operations that
  call them, are the operations for Things that are destroyed by that empty destructor;
  \<open>remove__unsafe_with\<close> and \<open>add__unsafe_with\<close> below are the same two operations for
  Things of any class, with the destructor that runs as a parameter.
\<close>

datatype Status = SUCCESS | FAILURE

definition remove__unsafe :: "string \<Rightarrow> codex \<Rightarrow> Status \<times> codex" where
  "remove__unsafe u s =
     (case get__unsafe Thing_kind u s of
        None \<Rightarrow> (FAILURE, s)
      | Some entry \<Rightarrow> (SUCCESS, s\<lparr>mapping := map_erase (mapping s) u\<rparr>))"

text \<open>The two overloads of \<^verbatim>\<open>remove\<close>: by UUID and by pointer.\<close>

definition remove_uuid :: "string \<Rightarrow> codex \<Rightarrow> fault + (Status \<times> codex)" where
  "remove_uuid u s = lock_guard (\<lambda>s. Inr (remove__unsafe u s)) s"

definition remove_ptr :: "thing option \<Rightarrow> codex \<Rightarrow> fault + (Status \<times> codex)" where
  "remove_ptr ptr s =
     lock_guard
       (\<lambda>s. case ptr of
               None \<Rightarrow> Inl Null_dereference
             | Some t \<Rightarrow> Inr (remove__unsafe (get_uuid t) s)) s"

definition size__unsafe :: "codex \<Rightarrow> nat" where
  "size__unsafe s = map_size (mapping s)"

definition size_codex :: "codex \<Rightarrow> fault + (nat \<times> codex)" where
  "size_codex s = lock_guard (\<lambda>s. Inr (size__unsafe s, s)) s"

subsection \<open>Listing\<close>

text \<open>
  The three loops of \<^verbatim>\<open>list_entries__unsafe\<close>.  The counters are \<^verbatim>\<open>int\<close> in the source and
  are compared with the size of a string; for a string of fewer than \<open>2^31\<close> characters
  they take the values of the natural numbers that count here.  \<^verbatim>\<open>repr.at(idx)\<close> is read
  only below the size, where it is \<open>repr ! idx\<close>.
\<close>

function indent_loop :: "nat \<Rightarrow> nat \<Rightarrow> string \<Rightarrow> string" where
  "indent_loop i n indent =
     (if i < n then indent_loop (Suc i) n (indent @ '' '') else indent)"
  by pat_completeness auto
termination
  by (relation "measure (\<lambda>(i, n, indent). n - i)") auto

function repr_loop :: "nat \<Rightarrow> string \<Rightarrow> string \<Rightarrow> string \<Rightarrow> string" where
  "repr_loop idx repr indent repr_offset =
     (if idx < length repr then
        repr_loop (Suc idx) repr indent
          (if repr ! idx = CHR 0x0A then (repr_offset @ [repr ! idx]) @ indent
           else repr_offset @ [repr ! idx])
      else repr_offset)"
  by pat_completeness auto
termination
  by (relation "measure (\<lambda>(idx, repr, indent, repr_offset). length repr - idx)") auto

fun content_loop ::
    "(kind \<Rightarrow> string) \<Rightarrow> (string \<times> thing) list \<Rightarrow> string \<Rightarrow> string" where
  "content_loop typeid_name [] content = content"
| "content_loop typeid_name ((first, second) # rest) content =
     (let repr = get_repr typeid_name second;
          indent = indent_loop 0 (length first) ''|       '';
          repr_offset = repr_loop 0 repr indent ''''
      in content_loop typeid_name rest
           (content @ ''|    ['' @ first @ ''] '' @ repr_offset @ ''\<newline>''))"

definition list_entries__unsafe ::
    "(kind \<Rightarrow> string) \<Rightarrow> bool \<Rightarrow> codex \<Rightarrow> string \<times> codex" where
  "list_entries__unsafe typeid_name print s =
     (let line = ''+---------------------------------------------'';
          prefix = ''\<newline>| Codex:\<newline>'';
          content = content_loop typeid_name (mapping s) ''''
      in (line @ prefix @ content @ line @ ''\<newline>'',
          if print then s\<lparr>cout := cout s @ line @ prefix @ content @ line @ ''\<newline>''\<rparr>
          else s))"

definition list_entries ::
    "(kind \<Rightarrow> string) \<Rightarrow> bool \<Rightarrow> codex \<Rightarrow> fault + (string \<times> codex)" where
  "list_entries typeid_name print s =
     lock_guard (\<lambda>s. Inr (list_entries__unsafe typeid_name print s)) s"

subsection \<open>Destructors\<close>

text \<open>
  The Codex destroys a Thing in two places: \<^verbatim>\<open>erase\<close> in \<^verbatim>\<open>remove__unsafe\<close>, and the
  assignment \<^verbatim>\<open>(*_get_mapping())[uuid] = std::move(ptr)\<close> in \<^verbatim>\<open>add__unsafe\<close> when the key
  already owns a Thing.  Both run the virtual destructor of the Thing, which a subclass
  writes and in which, the header says, it calls the ungated operations.  A destructor
  is therefore a function on the global state: \<open>dtor t s\<close> is the state that the
  destructor of the Thing \<open>t\<close>, started in \<open>s\<close>, leaves.  \<open>Thing_destructor\<close> is
  \<^verbatim>\<open>virtual ~Thing() {}\<close>.
\<close>

type_synonym destructor = "thing \<Rightarrow> codex \<Rightarrow> codex"

definition Thing_destructor :: destructor where
  "Thing_destructor t s = s"

text \<open>
  \<^verbatim>\<open>std::map::erase\<close> takes the node of the key out of the tree and destroys the value it
  holds.  The header does not say which comes first and neither does the language
  standard; the library decides, so the order is a parameter.  \<open>hook_state\<close> is the state
  in which the destructor is started.
\<close>

datatype erase_order = Unlink_first | Destroy_first

definition unlink :: "string \<Rightarrow> codex \<Rightarrow> codex" where
  "unlink u s = s\<lparr>mapping := map_erase (mapping s) u\<rparr>"

definition hook_state :: "erase_order \<Rightarrow> string \<Rightarrow> codex \<Rightarrow> codex" where
  "hook_state ord u s = (case ord of Unlink_first \<Rightarrow> unlink u s | Destroy_first \<Rightarrow> s)"

definition erase_with :: "erase_order \<Rightarrow> destructor \<Rightarrow> string \<Rightarrow> codex \<Rightarrow> codex" where
  "erase_with ord dtor u s =
     (case map_find (mapping s) u of
        None \<Rightarrow> s
      | Some second \<Rightarrow>
          (let s' = dtor second (hook_state ord u s)
           in case ord of Unlink_first \<Rightarrow> s' | Destroy_first \<Rightarrow> unlink u s'))"

definition remove__unsafe_with ::
    "erase_order \<Rightarrow> destructor \<Rightarrow> string \<Rightarrow> codex \<Rightarrow> Status \<times> codex" where
  "remove__unsafe_with ord dtor u s =
     (case get__unsafe Thing_kind u s of
        None \<Rightarrow> (FAILURE, s)
      | Some entry \<Rightarrow> (SUCCESS, erase_with ord dtor u s))"

text \<open>
  The assignment to a \<^verbatim>\<open>unique_ptr\<close> that owns a Thing stores the new pointer first and
  destroys the Thing owned before second (the order of \<^verbatim>\<open>unique_ptr::reset\<close>); then
  \<^verbatim>\<open>at(uuid)\<close> reads the map as the destructor left it.
\<close>

definition add__unsafe_with ::
    "destructor \<Rightarrow> kind \<Rightarrow> thing option \<Rightarrow> codex \<Rightarrow> fault + (thing option \<times> codex)" where
  "add__unsafe_with dtor T ptr s =
     (case ptr of
        None \<Rightarrow> Inl Null_dereference
      | Some t \<Rightarrow>
          (let u = get_uuid t;
               stored = s\<lparr>mapping := map_assign (mapping s) u t\<rparr>;
               s' = (case map_find (mapping s) u of
                       None \<Rightarrow> stored
                     | Some previous \<Rightarrow> dtor previous stored)
           in case map_find (mapping s') u of
                None \<Rightarrow> Inl Out_of_range
              | Some p \<Rightarrow> Inr (dynamic_cast T (Some p), s')))"

subsection \<open>Well-formed states, and runs of insertions and removals\<close>

text \<open>
  What \<^verbatim>\<open>std::map\<close> keeps true of its entries (keys strictly increasing, so no key
  twice) and what \<^verbatim>\<open>add__unsafe\<close> keeps true of them (a Thing is stored under its own
  UUID).
\<close>

definition codex_inv :: "codex \<Rightarrow> bool" where
  "codex_inv s =
     (sorted_wrt (<) (map fst (mapping s)) \<and>
      list_all (\<lambda>(first, second). first = get_uuid second) (mapping s))"

text \<open>
  A caller's sequence of insertions and removals, run with the ungated operations; an
  exception ends the run.  Three counts are taken along it: the insertions, the
  insertions whose UUID was absent when they ran, and the removals that returned
  \<open>SUCCESS\<close>.
\<close>

datatype op = Insert kind thing | Remove string

fun step :: "erase_order \<Rightarrow> destructor \<Rightarrow> op \<Rightarrow> codex \<Rightarrow> fault + codex" where
  "step ord dtor (Insert T t) s =
     (case add__unsafe_with dtor T (Some t) s of Inl e \<Rightarrow> Inl e | Inr (h, s') \<Rightarrow> Inr s')"
| "step ord dtor (Remove u) s = Inr (snd (remove__unsafe_with ord dtor u s))"

fun run :: "erase_order \<Rightarrow> destructor \<Rightarrow> op list \<Rightarrow> codex \<Rightarrow> fault + codex" where
  "run ord dtor [] s = Inr s"
| "run ord dtor (x # xs) s =
     (case step ord dtor x s of Inl e \<Rightarrow> Inl e | Inr s' \<Rightarrow> run ord dtor xs s')"

fun insertions :: "op list \<Rightarrow> nat" where
  "insertions [] = 0"
| "insertions (Insert T t # xs) = Suc (insertions xs)"
| "insertions (Remove u # xs) = insertions xs"

fun fresh_insertions :: "erase_order \<Rightarrow> destructor \<Rightarrow> op list \<Rightarrow> codex \<Rightarrow> nat" where
  "fresh_insertions ord dtor [] s = 0"
| "fresh_insertions ord dtor (Insert T t # xs) s =
     (if map_find (mapping s) (get_uuid t) = None then 1 else 0)
       + (case step ord dtor (Insert T t) s of
            Inl e \<Rightarrow> 0
          | Inr s' \<Rightarrow> fresh_insertions ord dtor xs s')"
| "fresh_insertions ord dtor (Remove u # xs) s =
     (case step ord dtor (Remove u) s of
        Inl e \<Rightarrow> 0
      | Inr s' \<Rightarrow> fresh_insertions ord dtor xs s')"

fun successful_removals :: "erase_order \<Rightarrow> destructor \<Rightarrow> op list \<Rightarrow> codex \<Rightarrow> nat" where
  "successful_removals ord dtor [] s = 0"
| "successful_removals ord dtor (Insert T t # xs) s =
     (case step ord dtor (Insert T t) s of
        Inl e \<Rightarrow> 0
      | Inr s' \<Rightarrow> successful_removals ord dtor xs s')"
| "successful_removals ord dtor (Remove u # xs) s =
     (if fst (remove__unsafe_with ord dtor u s) = SUCCESS then 1 else 0)
       + (case step ord dtor (Remove u) s of
            Inl e \<Rightarrow> 0
          | Inr s' \<Rightarrow> successful_removals ord dtor xs s')"

text \<open>
  A caller's sequence of the gated calls \<^verbatim>\<open>Thing::create()\<close> and \<^verbatim>\<open>remove(uuid)\<close>.  Every
  Thing such a run makes is a plain \<^verbatim>\<open>Thing\<close>, destroyed by the empty destructor.  Each
  \<open>Create\<close> carries what the platform facility does in that call; \<open>facilities\<close> lists
  them in order.
\<close>

datatype call = Create platform | Remove_call string

fun calls :: "call list \<Rightarrow> codex \<Rightarrow> fault + codex" where
  "calls [] s = Inr s"
| "calls (Create p # cs) s =
     (case create p s of Inl e \<Rightarrow> Inl e | Inr (h, s') \<Rightarrow> calls cs s')"
| "calls (Remove_call u # cs) s =
     (case remove_uuid u s of Inl e \<Rightarrow> Inl e | Inr (r, s') \<Rightarrow> calls cs s')"

fun facilities :: "call list \<Rightarrow> platform list" where
  "facilities [] = []"
| "facilities (Create p # cs) = p # facilities cs"
| "facilities (Remove_call u # cs) = facilities cs"

subsection \<open>The platform facility as the specification words it\<close>

text \<open>
  Whether the facility reported success, the text it produced, and the line that
  reports a failure: the message, the status code and a newline.
\<close>

fun facility_succeeded :: "platform \<Rightarrow> bool" where
  "facility_succeeded (Win32 create_status string_status str) =
     (create_status = 0 \<and> string_status = 0)"
| "facility_succeeded (Linux uuid_str) = True"

fun facility_text :: "platform \<Rightarrow> string" where
  "facility_text (Win32 create_status string_status str) = str"
| "facility_text (Linux uuid_str) = uuid_str"

fun diagnostic :: "platform \<Rightarrow> string" where
  "diagnostic (Win32 create_status string_status str) =
     (if create_status \<noteq> 0 then
        ''Unexpected error retrieveing UUID! Error code: '' @ show_long create_status
          @ ''\<newline>''
      else if string_status \<noteq> 0 then
        ''Unexpected error converting UUID to string! Error code: '' @ show_long string_status
          @ ''\<newline>''
      else [])"
| "diagnostic (Linux uuid_str) = []"

subsection \<open>The listing as the specification words it\<close>

text \<open>
  The lines of a representation (the pieces between its newline characters), the
  indentation of a continuation line (\<^verbatim>\<open>|\<close> and seven spaces, then one space per
  character of the identifier), and a row: the identifier in brackets, the first line,
  and every further line on a line of its own behind the indentation.
\<close>

fun split_lines :: "string \<Rightarrow> string list" where
  "split_lines [] = [[]]"
| "split_lines (c # cs) =
     (if c = CHR 0x0A then [] # split_lines cs
      else case split_lines cs of
             [] \<Rightarrow> [[c]]
           | l # ls \<Rightarrow> (c # l) # ls)"

definition continuation_indent :: "string \<Rightarrow> string" where
  "continuation_indent identifier = ''|       '' @ replicate (length identifier) CHR '' ''"

fun indented_lines :: "string \<Rightarrow> string list \<Rightarrow> string" where
  "indented_lines ind [] = []"
| "indented_lines ind [l] = l"
| "indented_lines ind (l # l' # ls) = l @ ''\<newline>'' @ ind @ indented_lines ind (l' # ls)"

definition listing_row :: "string \<Rightarrow> string \<Rightarrow> string" where
  "listing_row identifier repr =
     ''|    ['' @ identifier @ ''] ''
       @ indented_lines (continuation_indent identifier) (split_lines repr) @ ''\<newline>''"

subsection \<open>Example Things and states\<close>

text \<open>
  The Things of the specification's scenarios: a plain Thing with the representation of
  the base class, a \<^verbatim>\<open>Parent\<close>, and a \<^verbatim>\<open>Child\<close> whose representation has two lines; the
  Codex that holds the three; and a copy of the parent (as the implicit copy constructor
  of \<^verbatim>\<open>Thing\<close> makes one: the same \<^verbatim>\<open>_uuid\<close>) whose own state has changed since.
\<close>

definition Parent_kind :: kind where
  "Parent_kind = Derived ''Parent'' Thing_kind"

definition Child_kind :: kind where
  "Child_kind = Derived ''Child'' Thing_kind"

definition plain_thing :: thing where
  "plain_thing = \<lparr>uuid = ''a0'', dyn_kind = Thing_kind, repr_override = None\<rparr>"

definition parent_thing :: thing where
  "parent_thing = \<lparr>uuid = ''p1'', dyn_kind = Parent_kind, repr_override = Some ''parent''\<rparr>"

definition child_thing :: thing where
  "child_thing =
     \<lparr>uuid = ''c1'', dyn_kind = Child_kind, repr_override = Some ''b\<newline>continued''\<rparr>"

definition parent_copy :: thing where
  "parent_copy = \<lparr>uuid = ''p1'', dyn_kind = Parent_kind, repr_override = Some ''copy''\<rparr>"

definition family_codex :: codex where
  "family_codex =
     \<lparr>mapping = [(''a0'', plain_thing), (''c1'', child_thing), (''p1'', parent_thing)],
      mutex_locked = False, cout = []\<rparr>"

text \<open>
  Two destructors a subclass may have: one that resolves the identifier of its own
  Thing with \<^verbatim>\<open>get__unsafe\<close> and prints what it found, and one that prints a farewell.
  Neither changes the map.
\<close>

definition resolving_destructor :: destructor where
  "resolving_destructor t s =
     s\<lparr>cout := cout s @ (case get__unsafe Thing_kind (get_uuid t) s of
                             None \<Rightarrow> ''absent''
                           | Some found \<Rightarrow> ''present'')\<rparr>"

definition farewell_destructor :: destructor where
  "farewell_destructor t s = s\<lparr>cout := cout s @ ''bye '' @ get_uuid t\<rparr>"

section \<open>Verification\<close>

subsection \<open>Facts about the ordered map\<close>

declare show_nat.simps [simp del]
declare indent_loop.simps [simp del]
declare repr_loop.simps [simp del]

lemma map_find_None_iff: "map_find m k = None \<longleftrightarrow> k \<notin> fst ` set m"
  by (induction m k rule: map_find.induct) auto

lemma map_find_assign_same: "map_find (map_assign m k v) k = Some v"
  by (induction m k v rule: map_assign.induct) auto

lemma map_find_assign_other: "k' \<noteq> k \<Longrightarrow> map_find (map_assign m k v) k' = map_find m k'"
  by (induction m k v rule: map_assign.induct) auto

lemma keys_map_assign: "fst ` set (map_assign m k v) = insert k (fst ` set m)"
  by (induction m k v rule: map_assign.induct) auto

lemma sorted_map_assign:
  "sorted_wrt (<) (map fst m) \<Longrightarrow> sorted_wrt (<) (map fst (map_assign m k v))"
proof (induction m k v rule: map_assign.induct)
  case (1 k v)
  then show ?case by simp
next
  case (2 k' v' m k v)
  from "2.prems" have tl: "sorted_wrt (<) (map fst m)" and hd: "\<forall>x \<in> fst ` set m. k' < x"
    by auto
  show ?case
  proof (cases "k < k'")
    case True
    with hd tl show ?thesis by auto
  next
    case False
    show ?thesis
    proof (cases "k = k'")
      case True
      with hd tl show ?thesis by auto
    next
      case ne: False
      with False have "k' < k" by simp
      with hd have "\<forall>x \<in> fst ` set (map_assign m k v). k' < x"
        by (simp only: keys_map_assign) simp
      with "2.IH" [OF False ne tl] False ne show ?thesis by simp
    qed
  qed
qed

lemma length_map_assign:
  "sorted_wrt (<) (map fst m) \<Longrightarrow>
   length (map_assign m k v) = (if map_find m k = None then Suc (length m) else length m)"
proof (induction m k v rule: map_assign.induct)
  case (1 k v)
  then show ?case by simp
next
  case (2 k' v' m k v)
  from "2.prems" have tl: "sorted_wrt (<) (map fst m)" and hd: "\<forall>x \<in> fst ` set m. k' < x"
    by auto
  show ?case
  proof (cases "k < k'")
    case True
    with hd have "k \<notin> fst ` set m" by (metis less_asym)
    then have "map_find m k = None" by (simp add: map_find_None_iff)
    with True show ?thesis by auto
  next
    case False
    with "2.IH" [OF False _ tl] show ?thesis by auto
  qed
qed

lemma list_all_map_assign:
  "list_all P m \<Longrightarrow> P (k, v) \<Longrightarrow> list_all P (map_assign m k v)"
  by (induction m k v rule: map_assign.induct) auto

lemma map_find_erase_same: "map_find (map_erase m k) k = None"
  by (induction m k rule: map_erase.induct) auto

lemma map_find_erase_other: "k' \<noteq> k \<Longrightarrow> map_find (map_erase m k) k' = map_find m k'"
  by (induction m k rule: map_erase.induct) auto

lemma keys_map_erase: "fst ` set (map_erase m k) = fst ` set m - {k}"
  by (induction m k rule: map_erase.induct) auto

lemma sorted_map_erase:
  "sorted_wrt (<) (map fst m) \<Longrightarrow> sorted_wrt (<) (map fst (map_erase m k))"
proof (induction m k rule: map_erase.induct)
  case (1 k)
  then show ?case by simp
next
  case (2 k' v' m k)
  from "2.prems" have tl: "sorted_wrt (<) (map fst m)" and hd: "\<forall>x \<in> fst ` set m. k' < x"
    by auto
  from hd have "\<forall>x \<in> fst ` set (map_erase m k). k' < x"
    by (simp only: keys_map_erase) blast
  with "2.IH" tl show ?case by simp
qed

lemma list_all_map_erase: "list_all P m \<Longrightarrow> list_all P (map_erase m k)"
  by (induction m k rule: map_erase.induct) auto

lemma map_erase_absent: "map_find m k = None \<Longrightarrow> map_erase m k = m"
  by (induction m k rule: map_erase.induct) (auto split: if_splits)

lemma length_map_erase:
  "sorted_wrt (<) (map fst m) \<Longrightarrow> map_find m k = Some v \<Longrightarrow>
   Suc (length (map_erase m k)) = length m"
proof (induction m k rule: map_erase.induct)
  case (1 k)
  then show ?case by simp
next
  case (2 k' v' m k)
  from "2.prems" have tl: "sorted_wrt (<) (map fst m)" and hd: "\<forall>x \<in> fst ` set m. k' < x"
    by auto
  show ?case
  proof (cases "k' = k")
    case True
    with hd have "k \<notin> fst ` set m" by auto
    then have "map_erase m k = m" by (simp add: map_erase_absent map_find_None_iff)
    with True show ?thesis by simp
  next
    case False
    with "2.prems" "2.IH" tl show ?thesis by simp
  qed
qed

lemma in_set_map_find:
  "sorted_wrt (<) (map fst m) \<Longrightarrow> (k, v) \<in> set m \<Longrightarrow> map_find m k = Some v"
  by (induction m k rule: map_find.induct) force+

subsection \<open>Facts about the operations\<close>

lemma is_base_of_Thing_kind: "is_base_of Thing_kind K"
  by (induction K) auto

lemma is_base_of_refl: "is_base_of K K"
  by (cases K) auto

lemma dynamic_cast_Thing_kind: "dynamic_cast Thing_kind p = p"
  by (simp add: dynamic_cast_def is_base_of_Thing_kind split: option.splits)

lemma find_one_by_uuid__unsafe_Thing_kind:
  "find_one_by_uuid__unsafe Thing_kind u s = map_find (mapping s) u"
  by (simp add: find_one_by_uuid__unsafe_def dynamic_cast_Thing_kind split: option.splits)

lemma find_one_by_uuid__unsafe_eq:
  "find_one_by_uuid__unsafe T u s = dynamic_cast T (map_find (mapping s) u)"
  by (simp add: find_one_by_uuid__unsafe_def dynamic_cast_def split: option.splits)

lemma get__unsafe_eq: "get__unsafe T u s = dynamic_cast T (map_find (mapping s) u)"
  by (simp add: get__unsafe_def find_one_by_uuid__unsafe_Thing_kind dynamic_cast_def
      split: option.splits)

lemma add__unsafe_Some:
  "add__unsafe T (Some t) s =
     Inr (dynamic_cast T (Some t), s\<lparr>mapping := map_assign (mapping s) (get_uuid t) t\<rparr>)"
  by (simp add: add__unsafe_def Let_def map_find_assign_same)

lemma remove__unsafe_absent:
  "map_find (mapping s) u = None \<Longrightarrow> remove__unsafe u s = (FAILURE, s)"
  by (simp add: remove__unsafe_def get__unsafe_eq dynamic_cast_def)

lemma remove__unsafe_present:
  "map_find (mapping s) u = Some t \<Longrightarrow>
   remove__unsafe u s = (SUCCESS, s\<lparr>mapping := map_erase (mapping s) u\<rparr>)"
  by (simp add: remove__unsafe_def get__unsafe_eq dynamic_cast_Thing_kind)

lemma codex_inv_init: "codex_inv codex_init"
  by (simp add: codex_inv_def codex_init_def)

lemma codex_inv_assign:
  "codex_inv s \<Longrightarrow> codex_inv (s\<lparr>mapping := map_assign (mapping s) (get_uuid t) t\<rparr>)"
  by (simp add: codex_inv_def sorted_map_assign list_all_map_assign)

lemma codex_inv_erase:
  "codex_inv s \<Longrightarrow> codex_inv (s\<lparr>mapping := map_erase (mapping s) u\<rparr>)"
  by (simp add: codex_inv_def sorted_map_erase list_all_map_erase)

lemma stored_under_own_uuid:
  "codex_inv s \<Longrightarrow> (k, t) \<in> set (mapping s) \<Longrightarrow>
   k = get_uuid t \<and> map_find (mapping s) (get_uuid t) = Some t"
proof -
  assume inv: "codex_inv s" and mem: "(k, t) \<in> set (mapping s)"
  from inv mem have k: "k = get_uuid t"
    by (auto simp: codex_inv_def list_all_iff)
  from inv have "sorted_wrt (<) (map fst (mapping s))"
    by (simp add: codex_inv_def)
  from in_set_map_find [OF this mem] k show ?thesis by simp
qed

lemma family_codex_inv: "codex_inv family_codex"
  by (simp add: codex_inv_def family_codex_def plain_thing_def child_thing_def parent_thing_def
      get_uuid_def)

subsection \<open>Facts about the listing loops\<close>

lemma indent_loop_eq: "indent_loop i n indent = indent @ replicate (n - i) CHR '' ''"
proof (induction i n indent rule: indent_loop.induct)
  case (1 i n indent)
  show ?case
  proof (cases "i < n")
    case True
    then have "n - i = Suc (n - Suc i)" by simp
    with True "1.IH" show ?thesis
      by (subst indent_loop.simps) (simp add: replicate_append_same)
  next
    case False
    then show ?thesis by (subst indent_loop.simps) simp
  qed
qed

lemma indent_loop_continuation_indent:
  "indent_loop 0 (length first) ''|       '' = continuation_indent first"
  by (simp add: indent_loop_eq continuation_indent_def)

lemma repr_loop_eq:
  "repr_loop idx repr indent repr_offset =
     repr_offset @ concat (map (\<lambda>c. if c = CHR 0x0A then c # indent else [c]) (drop idx repr))"
proof (induction idx repr indent repr_offset rule: repr_loop.induct)
  case (1 idx repr indent repr_offset)
  show ?case
  proof (cases "idx < length repr")
    case True
    then have d: "drop idx repr = repr ! idx # drop (Suc idx) repr"
      by (simp add: Cons_nth_drop_Suc)
    from True "1.IH" show ?thesis
      by (subst repr_loop.simps) (simp add: d)
  next
    case False
    then show ?thesis by (subst repr_loop.simps) simp
  qed
qed

lemma split_lines_not_Nil: "split_lines cs \<noteq> []"
  by (induction cs) (auto split: list.splits)

lemma indented_lines_Cons_char:
  "indented_lines ind ((c # l) # ls) = c # indented_lines ind (l # ls)"
  by (cases ls) simp_all

lemma indented_lines_split_lines:
  "concat (map (\<lambda>c. if c = CHR 0x0A then c # ind else [c]) repr)
     = indented_lines ind (split_lines repr)"
proof (induction repr)
  case Nil
  show ?case by simp
next
  case (Cons c cs)
  obtain l ls where sl: "split_lines cs = l # ls"
    using split_lines_not_Nil [of cs] by (cases "split_lines cs") auto
  with Cons.IH show ?case
    by (simp add: indented_lines_Cons_char)
qed

lemma repr_loop_indented_lines:
  "repr_loop 0 repr indent '''' = indented_lines indent (split_lines repr)"
  by (simp add: repr_loop_eq indented_lines_split_lines)

lemma content_loop_eq:
  "content_loop tn m content =
     content @ concat (map (\<lambda>(first, second). listing_row first (get_repr tn second)) m)"
proof (induction m arbitrary: content)
  case Nil
  show ?case by simp
next
  case (Cons e m)
  obtain first second where e: "e = (first, second)" by (cases e)
  show ?case
    by (simp add: e Cons.IH Let_def listing_row_def indent_loop_continuation_indent
        repr_loop_indented_lines)
qed

subsection \<open>Facts about destructors and runs\<close>

lemma remove__unsafe_with_Thing_destructor:
  "remove__unsafe_with ord Thing_destructor u s = remove__unsafe u s"
  by (cases ord)
     (simp_all add: remove__unsafe_with_def remove__unsafe_def erase_with_def hook_state_def
        unlink_def Thing_destructor_def get__unsafe_eq dynamic_cast_Thing_kind
        split: option.splits)

lemma add__unsafe_with_Thing_destructor:
  "add__unsafe_with Thing_destructor T ptr s = add__unsafe T ptr s"
  by (simp add: add__unsafe_with_def add__unsafe_def Thing_destructor_def Let_def
      split: option.splits)

lemma codex_inv_cong: "mapping s = mapping s' \<Longrightarrow> codex_inv s = codex_inv s'"
  by (simp add: codex_inv_def)

lemma get__unsafe_cong: "mapping s = mapping s' \<Longrightarrow> get__unsafe K u s = get__unsafe K u s'"
  by (simp add: get__unsafe_eq)

lemma remove__unsafe_with_absent:
  "map_find (mapping s) u = None \<Longrightarrow> remove__unsafe_with ord dtor u s = (FAILURE, s)"
  by (simp add: remove__unsafe_with_def get__unsafe_eq dynamic_cast_def)

lemma remove__unsafe_with_present:
  "map_find (mapping s) u = Some t \<Longrightarrow>
   remove__unsafe_with ord dtor u s =
     (SUCCESS, case ord of Unlink_first \<Rightarrow> dtor t (unlink u s)
               | Destroy_first \<Rightarrow> unlink u (dtor t s))"
  by (cases ord)
     (simp_all add: remove__unsafe_with_def erase_with_def hook_state_def get__unsafe_eq
        dynamic_cast_Thing_kind)

lemma mapping_after_remove__unsafe_with:
  assumes quiet: "\<forall>x. mapping (dtor t x) = mapping x"
    and present: "map_find (mapping s) u = Some t"
  shows "mapping (snd (remove__unsafe_with ord dtor u s)) = map_erase (mapping s) u"
  using quiet by (cases ord) (simp_all add: remove__unsafe_with_present [OF present] unlink_def)

lemma add__unsafe_with_quiet:
  assumes quiet: "\<forall>t x. mapping (dtor t x) = mapping x"
  shows "\<exists>s'. add__unsafe_with dtor T (Some t) s = Inr (dynamic_cast T (Some t), s')
           \<and> mapping s' = map_assign (mapping s) (get_uuid t) t"
proof -
  let ?stored = "s\<lparr>mapping := map_assign (mapping s) (get_uuid t) t\<rparr>"
  let ?s' = "case map_find (mapping s) (get_uuid t) of
               None \<Rightarrow> ?stored
             | Some previous \<Rightarrow> dtor previous ?stored"
  from quiet have m: "mapping ?s' = map_assign (mapping s) (get_uuid t) t"
    by (simp split: option.splits)
  then have "map_find (mapping ?s') (get_uuid t) = Some t"
    by (simp only: map_find_assign_same)
  then have "add__unsafe_with dtor T (Some t) s = Inr (dynamic_cast T (Some t), ?s')"
    by (simp add: add__unsafe_with_def Let_def)
  with m show ?thesis by blast
qed

lemma remove__unsafe_with_quiet:
  assumes quiet: "\<forall>t x. mapping (dtor t x) = mapping x"
  shows "mapping (snd (remove__unsafe_with ord dtor u s)) = map_erase (mapping s) u"
proof (cases "map_find (mapping s) u")
  case None
  then show ?thesis by (simp add: remove__unsafe_with_absent map_erase_absent)
next
  case (Some t)
  from quiet have "\<forall>x. mapping (dtor t x) = mapping x" by simp
  from mapping_after_remove__unsafe_with [where dtor = dtor and t = t, OF this Some]
  show ?thesis .
qed

lemma remove__unsafe_with_status:
  "fst (remove__unsafe_with ord dtor u s) = SUCCESS \<longleftrightarrow> map_find (mapping s) u \<noteq> None"
  by (cases "map_find (mapping s) u")
     (simp_all add: remove__unsafe_with_absent remove__unsafe_with_present)

lemma size_after_run:
  assumes quiet: "\<forall>t x. mapping (dtor t x) = mapping x"
  shows "codex_inv s \<Longrightarrow>
   \<exists>s'. run ord dtor ops s = Inr s' \<and> codex_inv s'
      \<and> size__unsafe s' + successful_removals ord dtor ops s
          = size__unsafe s + fresh_insertions ord dtor ops s"
proof (induction ops arbitrary: s)
  case Nil
  then show ?case by simp
next
  case (Cons x ops)
  from Cons.prems have sorted: "sorted_wrt (<) (map fst (mapping s))"
    by (simp add: codex_inv_def)
  show ?case
  proof (cases x)
    case (Insert T t)
    from add__unsafe_with_quiet [OF quiet, of T t s] obtain s1 where
      a: "add__unsafe_with dtor T (Some t) s = Inr (dynamic_cast T (Some t), s1)"
      and m: "mapping s1 = map_assign (mapping s) (get_uuid t) t"
      by blast
    from a have st: "step ord dtor (Insert T t) s = Inr s1" by simp
    from Cons.prems m have inv1: "codex_inv s1"
      by (simp add: codex_inv_def sorted_map_assign list_all_map_assign)
    from m sorted have sz: "size__unsafe s1
        = size__unsafe s + (if map_find (mapping s) (get_uuid t) = None then 1 else 0)"
      by (simp add: size__unsafe_def map_size_def length_map_assign)
    from Cons.IH [OF inv1] obtain s' where
      r: "run ord dtor ops s1 = Inr s'" and inv': "codex_inv s'"
      and eq: "size__unsafe s' + successful_removals ord dtor ops s1
          = size__unsafe s1 + fresh_insertions ord dtor ops s1"
      by blast
    from r st have "run ord dtor (x # ops) s = Inr s'" by (simp add: Insert)
    moreover from eq sz st have "size__unsafe s' + successful_removals ord dtor (x # ops) s
          = size__unsafe s + fresh_insertions ord dtor (x # ops) s"
      by (simp add: Insert)
    ultimately show ?thesis using inv' by blast
  next
    case (Remove u)
    let ?s1 = "snd (remove__unsafe_with ord dtor u s)"
    have st: "step ord dtor (Remove u) s = Inr ?s1" by simp
    from remove__unsafe_with_quiet [OF quiet, of ord u s]
    have m: "mapping ?s1 = map_erase (mapping s) u" .
    from Cons.prems m have inv1: "codex_inv ?s1"
      by (simp add: codex_inv_def sorted_map_erase list_all_map_erase)
    have sz: "size__unsafe ?s1
        + (if fst (remove__unsafe_with ord dtor u s) = SUCCESS then 1 else 0) = size__unsafe s"
    proof (cases "map_find (mapping s) u")
      case None
      then show ?thesis
        by (simp add: remove__unsafe_with_status size__unsafe_def map_size_def m map_erase_absent)
    next
      case (Some t)
      from length_map_erase [OF sorted Some] Some show ?thesis
        by (simp add: remove__unsafe_with_status size__unsafe_def map_size_def m)
    qed
    from Cons.IH [OF inv1] obtain s' where
      r: "run ord dtor ops ?s1 = Inr s'" and inv': "codex_inv s'"
      and eq: "size__unsafe s' + successful_removals ord dtor ops ?s1
          = size__unsafe ?s1 + fresh_insertions ord dtor ops ?s1"
      by blast
    from r have "run ord dtor (x # ops) s = Inr s'" by (simp add: Remove)
    moreover from eq sz have "size__unsafe s' + successful_removals ord dtor (x # ops) s
          = size__unsafe s + fresh_insertions ord dtor (x # ops) s"
      by (simp add: Remove)
    ultimately show ?thesis using inv' by blast
  qed
qed

lemma codex_inv_run:
  assumes quiet: "\<forall>t x. mapping (dtor t x) = mapping x"
    and inv: "codex_inv s" and r: "run ord dtor ops s = Inr s'"
  shows "codex_inv s'"
  using size_after_run [OF quiet inv, of ord ops] r by auto

subsection \<open>Facts about minting and the gated calls\<close>

lemma new_uuid_fst:
  "fst (new_uuid p s) = (if facility_succeeded p then facility_text p else [])"
  by (cases p) simp_all

lemma new_uuid_snd: "snd (new_uuid p s) = s\<lparr>cout := cout s @ diagnostic p\<rparr>"
  by (cases p) simp_all

lemma diagnostic_empty_iff: "(diagnostic p = []) = facility_succeeded p"
  by (cases p) auto

lemma Thing_eq:
  "Thing p s =
     (\<lparr>uuid = fst (new_uuid p s), dyn_kind = Thing_kind, repr_override = None\<rparr>,
      snd (new_uuid p s))"
  by (simp add: Thing_def case_prod_beta)

lemma create_eq:
  "create p s =
     (if mutex_locked s then Inl Deadlock
      else Inr (Some (fst (Thing p s)),
                s\<lparr>mapping := map_assign (mapping s) (fst (new_uuid p s)) (fst (Thing p s)),
                  cout := cout s @ diagnostic p\<rparr>))"
  by (simp add: create_def Thing_eq new_uuid_snd add_def lock_guard_def add__unsafe_Some
      dynamic_cast_def get_uuid_def)

lemma remove_uuid_eq:
  "remove_uuid u s =
     (if mutex_locked s then Inl Deadlock
      else Inr (fst (remove__unsafe u s), s\<lparr>mapping := map_erase (mapping s) u\<rparr>))"
  by (cases "map_find (mapping s) u")
     (simp_all add: remove_uuid_def lock_guard_def remove__unsafe_absent remove__unsafe_present
        map_erase_absent)

lemma sorted_keys_distinct: "sorted_wrt (<) (ks :: string list) \<Longrightarrow> distinct ks"
  by (induction ks) auto

lemma calls_invariant:
  "codex_inv s \<Longrightarrow> \<not> mutex_locked s \<Longrightarrow>
   \<exists>s'. calls cs s = Inr s' \<and> codex_inv s' \<and> \<not> mutex_locked s'
      \<and> cout s' = cout s @ concat (map diagnostic (facilities cs))
      \<and> fst ` set (mapping s')
          \<subseteq> fst ` set (mapping s) \<union> (\<lambda>q. fst (new_uuid q s)) ` set (facilities cs)"
proof (induction cs arbitrary: s)
  case Nil
  then show ?case by simp
next
  case (Cons c cs)
  show ?case
  proof (cases c)
    case (Create p)
    let ?t = "fst (Thing p s)"
    let ?s1 = "s\<lparr>mapping := map_assign (mapping s) (fst (new_uuid p s)) ?t,
                 cout := cout s @ diagnostic p\<rparr>"
    from Cons.prems have cr: "create p s = Inr (Some ?t, ?s1)" by (simp add: create_eq)
    have u: "get_uuid ?t = fst (new_uuid p s)" by (simp add: Thing_eq get_uuid_def)
    from Cons.prems have inv1: "codex_inv ?s1"
      by (simp add: codex_inv_def sorted_map_assign list_all_map_assign u)
    from Cons.prems have free1: "\<not> mutex_locked ?s1" by simp
    from Cons.IH [OF inv1 free1] obtain s' where
      r: "calls cs ?s1 = Inr s'" and inv': "codex_inv s'" and free': "\<not> mutex_locked s'"
      and out: "cout s' = cout ?s1 @ concat (map diagnostic (facilities cs))"
      and keys: "fst ` set (mapping s')
          \<subseteq> fst ` set (mapping ?s1) \<union> (\<lambda>q. fst (new_uuid q ?s1)) ` set (facilities cs)"
      by blast
    have indep: "fst (new_uuid q ?s1) = fst (new_uuid q s)" for q
      by (simp add: new_uuid_fst)
    from r cr have "calls (c # cs) s = Inr s'" by (simp add: Create)
    moreover from out have "cout s' = cout s @ concat (map diagnostic (facilities (c # cs)))"
      by (simp add: Create)
    moreover from keys have "fst ` set (mapping s')
          \<subseteq> fst ` set (mapping s) \<union> (\<lambda>q. fst (new_uuid q s)) ` set (facilities (c # cs))"
      by (auto simp: Create keys_map_assign indep)
    ultimately show ?thesis using inv' free' by blast
  next
    case (Remove_call u)
    let ?s1 = "s\<lparr>mapping := map_erase (mapping s) u\<rparr>"
    from Cons.prems have rm: "remove_uuid u s = Inr (fst (remove__unsafe u s), ?s1)"
      by (simp add: remove_uuid_eq)
    from Cons.prems have inv1: "codex_inv ?s1" by (simp add: codex_inv_erase)
    from Cons.prems have free1: "\<not> mutex_locked ?s1" by simp
    from Cons.IH [OF inv1 free1] obtain s' where
      r: "calls cs ?s1 = Inr s'" and inv': "codex_inv s'" and free': "\<not> mutex_locked s'"
      and out: "cout s' = cout ?s1 @ concat (map diagnostic (facilities cs))"
      and keys: "fst ` set (mapping s')
          \<subseteq> fst ` set (mapping ?s1) \<union> (\<lambda>q. fst (new_uuid q ?s1)) ` set (facilities cs)"
      by blast
    have indep: "fst (new_uuid q ?s1) = fst (new_uuid q s)" for q
      by (simp add: new_uuid_fst)
    from r rm have "calls (c # cs) s = Inr s'" by (simp add: Remove_call)
    moreover from out have "cout s' = cout s @ concat (map diagnostic (facilities (c # cs)))"
      by (simp add: Remove_call)
    moreover from keys have "fst ` set (mapping s')
          \<subseteq> fst ` set (mapping s) \<union> (\<lambda>q. fst (new_uuid q s)) ` set (facilities (c # cs))"
      by (auto simp: Remove_call keys_map_erase indep)
    ultimately show ?thesis using inv' free' by blast
  qed
qed

subsection \<open>Kind-checked resolution\<close>

text \<open>
  Claim C2.  For a Thing \<open>t\<close> stored in the Codex and a requested class \<open>K\<close>,
  \<^verbatim>\<open>get__unsafe<K>(t.get_uuid())\<close> returns a pointer exactly when the class of \<open>t\<close> is \<open>K\<close>
  or derives from it, and then the pointer is to \<open>t\<close>; on a mismatch it returns the null
  pointer; asking for \<^verbatim>\<open>Thing\<close> always returns \<open>t\<close>; the internal lookup
  \<^verbatim>\<open>_find_one_by_uuid__unsafe<K>\<close> agrees with it; and for an identifier that is no key of
  the map both return the null pointer.
\<close>

theorem get__unsafe_kind_checked:
  "codex_inv s \<Longrightarrow> (k, t) \<in> set (mapping s) \<Longrightarrow>
     (get__unsafe K (get_uuid t) s \<noteq> None) = is_base_of K (dyn_kind t)
   \<and> get__unsafe K (get_uuid t) s = (if is_base_of K (dyn_kind t) then Some t else None)
   \<and> get__unsafe Thing_kind (get_uuid t) s = Some t
   \<and> find_one_by_uuid__unsafe K (get_uuid t) s = get__unsafe K (get_uuid t) s
   \<and> (u \<notin> fst ` set (mapping s) \<longrightarrow>
        get__unsafe K u s = None \<and> find_one_by_uuid__unsafe K u s = None)"
proof -
  assume inv: "codex_inv s" and mem: "(k, t) \<in> set (mapping s)"
  from stored_under_own_uuid [OF inv mem]
  have found: "map_find (mapping s) (get_uuid t) = Some t" by simp
  have absent: "u \<notin> fst ` set (mapping s) \<Longrightarrow> map_find (mapping s) u = None"
    by (simp add: map_find_None_iff)
  from found absent show ?thesis
    by (simp add: get__unsafe_eq find_one_by_uuid__unsafe_eq dynamic_cast_def
        is_base_of_Thing_kind)
qed

theorem get__unsafe_kind_checked_witness:
  "codex_inv family_codex \<and> (''p1'', parent_thing) \<in> set (mapping family_codex)
   \<and> get__unsafe Child_kind (get_uuid parent_thing) family_codex = None
   \<and> get__unsafe Parent_kind (get_uuid parent_thing) family_codex = Some parent_thing
   \<and> get__unsafe Thing_kind (get_uuid parent_thing) family_codex = Some parent_thing
   \<and> ''zz'' \<notin> fst ` set (mapping family_codex)
   \<and> get__unsafe Thing_kind ''zz'' family_codex = None"
proof -
  have mem: "(''p1'', parent_thing) \<in> set (mapping family_codex)"
    by (simp add: family_codex_def)
  have zz: "''zz'' \<notin> fst ` set (mapping family_codex)"
    by (simp add: family_codex_def)
  have no: "\<not> is_base_of Child_kind (dyn_kind parent_thing)"
    and yes: "is_base_of Parent_kind (dyn_kind parent_thing)"
    by (simp_all add: parent_thing_def Child_kind_def Parent_kind_def)
  from get__unsafe_kind_checked [OF family_codex_inv mem, of Child_kind "''zz''"] no
  have c: "get__unsafe Child_kind (get_uuid parent_thing) family_codex = None" by simp
  from get__unsafe_kind_checked [OF family_codex_inv mem, of Parent_kind "''zz''"] yes
  have p: "get__unsafe Parent_kind (get_uuid parent_thing) family_codex = Some parent_thing"
    by simp
  from get__unsafe_kind_checked [OF family_codex_inv mem, of Thing_kind "''zz''"] zz
  have t: "get__unsafe Thing_kind (get_uuid parent_thing) family_codex = Some parent_thing"
    and z: "get__unsafe Thing_kind ''zz'' family_codex = None"
    by blast+
  from family_codex_inv mem c p t zz z show ?thesis by (intro conjI)
qed

subsection \<open>Absent identifiers\<close>

text \<open>
  Claim C6.  For an identifier \<open>u\<close> that is no key of the map, resolving \<open>u\<close> returns the
  null pointer and removing \<open>u\<close> returns \<open>FAILURE\<close> and changes nothing, ungated and (when
  the mutex is free) gated.  After one call of \<^verbatim>\<open>remove__unsafe(u)\<close>, whatever it returned,
  \<open>u\<close> is no key of the map, and each of the calls that follow returns \<open>FAILURE\<close> and leaves
  the state as the first call left it.
\<close>

theorem absent_identifier_not_found:
  "(u \<notin> fst ` set (mapping s) \<longrightarrow>
      get__unsafe K u s = None
    \<and> remove__unsafe u s = (FAILURE, s)
    \<and> remove_uuid u s = (if mutex_locked s then Inl Deadlock else Inr (FAILURE, s)))
   \<and> u \<notin> fst ` set (mapping (snd (remove__unsafe u s)))
   \<and> remove__unsafe u (((\<lambda>s. snd (remove__unsafe u s)) ^^ Suc n) s)
       = (FAILURE, snd (remove__unsafe u s))"
proof -
  let ?rm = "\<lambda>s. snd (remove__unsafe u s)"
  have absent: "remove__unsafe u s' = (FAILURE, s')"
    if "u \<notin> fst ` set (mapping s')" for s'
    using that by (simp add: remove__unsafe_absent map_find_None_iff)
  have gone: "u \<notin> fst ` set (mapping (?rm s'))" for s'
    by (cases "map_find (mapping s') u")
       (simp_all add: remove__unsafe_absent remove__unsafe_present keys_map_erase
          map_find_None_iff [symmetric])
  have iter: "(?rm ^^ Suc n) s = ?rm s"
  proof (induction n)
    case 0
    show ?case by simp
  next
    case (Suc n)
    have "(?rm ^^ Suc (Suc n)) s = ?rm ((?rm ^^ Suc n) s)" by simp
    also have "\<dots> = ?rm (?rm s)" by (simp only: Suc.IH)
    also have "\<dots> = ?rm s" using absent [OF gone [of s]] by simp
    finally show ?case .
  qed
  have gated: "remove_uuid u s = (if mutex_locked s then Inl Deadlock else Inr (FAILURE, s))"
    if a: "u \<notin> fst ` set (mapping s)"
  proof (cases "mutex_locked s")
    case True
    then show ?thesis by (simp add: remove_uuid_def lock_guard_def)
  next
    case False
    from a have "u \<notin> fst ` set (mapping (s\<lparr>mutex_locked := True\<rparr>))" by simp
    from absent [OF this] False show ?thesis
      by (simp add: remove_uuid_def lock_guard_def)
  qed
  have resolve: "get__unsafe K u s = None" if "u \<notin> fst ` set (mapping s)"
  proof -
    from that have "map_find (mapping s) u = None" by (simp add: map_find_None_iff)
    then show ?thesis by (simp add: get__unsafe_eq dynamic_cast_def)
  qed
  from absent [of s] gated resolve gone [of s] absent [OF gone [of s]] show ?thesis
    by (simp only: iter) simp
qed

theorem absent_identifier_not_found_witness:
  "''zz'' \<notin> fst ` set (mapping family_codex)
   \<and> get__unsafe Thing_kind ''zz'' family_codex = None
   \<and> remove__unsafe ''zz'' family_codex = (FAILURE, family_codex)
   \<and> remove_uuid ''zz'' family_codex = Inr (FAILURE, family_codex)
   \<and> fst (remove__unsafe ''p1'' family_codex) = SUCCESS
   \<and> ''p1'' \<notin> fst ` set (mapping (snd (remove__unsafe ''p1'' family_codex)))
   \<and> fst (remove__unsafe ''p1'' (snd (remove__unsafe ''p1'' family_codex))) = FAILURE"
proof -
  have zz: "''zz'' \<notin> fst ` set (mapping family_codex)"
    by (simp add: family_codex_def)
  have unlocked: "\<not> mutex_locked family_codex"
    by (simp add: family_codex_def)
  have first: "fst (remove__unsafe ''p1'' family_codex) = SUCCESS"
    by (simp add: remove__unsafe_def get__unsafe_eq dynamic_cast_Thing_kind family_codex_def)
  from absent_identifier_not_found [of "''zz''" family_codex Thing_kind 0] zz unlocked
  have a: "get__unsafe Thing_kind ''zz'' family_codex = None"
    and b: "remove__unsafe ''zz'' family_codex = (FAILURE, family_codex)"
    and c: "remove_uuid ''zz'' family_codex = Inr (FAILURE, family_codex)"
    by simp_all
  from absent_identifier_not_found [of "''p1''" family_codex Thing_kind 0]
  have d: "''p1'' \<notin> fst ` set (mapping (snd (remove__unsafe ''p1'' family_codex)))"
    and e: "fst (remove__unsafe ''p1'' (snd (remove__unsafe ''p1'' family_codex))) = FAILURE"
    by simp_all
  from zz a b c first d e show ?thesis by (intro conjI)
qed

subsection \<open>Removal through a pointer\<close>

text \<open>
  Claim C9.  \<^verbatim>\<open>remove(Thing* ptr)\<close> reads \<^verbatim>\<open>ptr->get_uuid()\<close> without a check: with a pointer
  to a Thing it is \<^verbatim>\<open>remove\<close> of that Thing's identifier, result and final state alike;
  with the null pointer it returns nothing (it waits on a mutex that is held, and reads
  through the null pointer otherwise).
\<close>

theorem remove_ptr_reads_through_handle:
  "remove_ptr (Some t) s = remove_uuid (get_uuid t) s
   \<and> remove_ptr None s = (if mutex_locked s then Inl Deadlock else Inl Null_dereference)"
  by (simp add: remove_ptr_def remove_uuid_def lock_guard_def)

subsection \<open>Listing changes nothing but the output\<close>

text \<open>
  Claim C10.  \<^verbatim>\<open>list_entries__unsafe\<close>, with either value of \<^verbatim>\<open>print\<close>, leaves the map, the
  mutex, the size and every lookup as they were: the state after the call is the state
  before it, with the listing appended to the standard output when \<^verbatim>\<open>print\<close> is set.  The
  gated \<^verbatim>\<open>list_entries\<close> returns the same string and the same state whenever the mutex
  is free.
\<close>

theorem list_entries_leaves_codex_unchanged:
  "mapping (snd (list_entries__unsafe tn p s)) = mapping s
   \<and> mutex_locked (snd (list_entries__unsafe tn p s)) = mutex_locked s
   \<and> size__unsafe (snd (list_entries__unsafe tn p s)) = size__unsafe s
   \<and> get__unsafe K u (snd (list_entries__unsafe tn p s)) = get__unsafe K u s
   \<and> snd (list_entries__unsafe tn p s)
       = s\<lparr>cout := cout s @ (if p then fst (list_entries__unsafe tn p s) else [])\<rparr>
   \<and> list_entries tn p s
       = (if mutex_locked s then Inl Deadlock else Inr (list_entries__unsafe tn p s))"
proof -
  have frame: "snd (list_entries__unsafe tn p s)
       = s\<lparr>cout := cout s @ (if p then fst (list_entries__unsafe tn p s) else [])\<rparr>"
    by (simp add: list_entries__unsafe_def Let_def)
  have gated: "list_entries tn p s
       = (if mutex_locked s then Inl Deadlock else Inr (list_entries__unsafe tn p s))"
    by (simp add: list_entries_def lock_guard_def list_entries__unsafe_def Let_def)
  show ?thesis
    by (simp only: gated frame [symmetric])
       (simp add: frame size__unsafe_def get__unsafe_eq)
qed

subsection \<open>The gated operations\<close>

text \<open>
  Claim C4.  The gated \<^verbatim>\<open>get<T>\<close> calls \<^verbatim>\<open>get_unsafe<T>\<close>, a name the header does not
  declare, so it is ill-formed and is no gated form of \<^verbatim>\<open>get__unsafe<T>\<close>.  Its
  siblings \<^verbatim>\<open>_find_one_by_uuid\<close>, \<^verbatim>\<open>add\<close>, \<^verbatim>\<open>remove\<close>, \<^verbatim>\<open>size\<close> and \<^verbatim>\<open>list_entries\<close> do
  what it misses: with the mutex free, each returns the result and the final state of
  its ungated counterpart.
\<close>

theorem gated_get_is_ill_formed:
  "get T u = Ill_formed ''get_unsafe''
   \<and> get T u \<noteq> Well_formed (lock_guard (\<lambda>s. Inr (get__unsafe T u s, s)))
   \<and> find_one_by_uuid T u s
       = (if mutex_locked s then Inl Deadlock else Inr (find_one_by_uuid__unsafe T u s, s))
   \<and> add T ptr s = (if mutex_locked s then Inl Deadlock else add__unsafe T ptr s)
   \<and> remove_uuid u s = (if mutex_locked s then Inl Deadlock else Inr (remove__unsafe u s))
   \<and> size_codex s = (if mutex_locked s then Inl Deadlock else Inr (size__unsafe s, s))
   \<and> list_entries tn p s
       = (if mutex_locked s then Inl Deadlock else Inr (list_entries__unsafe tn p s))"
proof -
  have f: "find_one_by_uuid T u s
       = (if mutex_locked s then Inl Deadlock else Inr (find_one_by_uuid__unsafe T u s, s))"
    by (simp add: find_one_by_uuid_def lock_guard_def find_one_by_uuid__unsafe_eq)
  have a: "add T ptr s = (if mutex_locked s then Inl Deadlock else add__unsafe T ptr s)"
    by (cases ptr) (simp_all add: add_def lock_guard_def add__unsafe_Some, simp add: add__unsafe_def)
  have r: "remove_uuid u s = (if mutex_locked s then Inl Deadlock else Inr (remove__unsafe u s))"
    by (cases "map_find (mapping s) u")
       (simp_all add: remove_uuid_def lock_guard_def remove__unsafe_absent remove__unsafe_present)
  have z: "size_codex s = (if mutex_locked s then Inl Deadlock else Inr (size__unsafe s, s))"
    by (simp add: size_codex_def lock_guard_def size__unsafe_def)
  have l: "list_entries tn p s
       = (if mutex_locked s then Inl Deadlock else Inr (list_entries__unsafe tn p s))"
    by (simp add: list_entries_def lock_guard_def list_entries__unsafe_def Let_def)
  from f a r z l show ?thesis by (simp add: get_def)
qed

subsection \<open>The format of the listing\<close>

text \<open>
  Claim C8.  The listing of a Codex without entries is the rule line, the line
  \<^verbatim>\<open>| Codex:\<close> and the rule line again, each ended by a newline, and nothing else.  In
  general the rows stand between the header and the closing rule, one per entry in key
  order, and a row is \<open>listing_row\<close> of the identifier and the representation: every
  line of the representation after the first is preceded by \<^verbatim>\<open>|\<close>, seven spaces and as
  many spaces as the identifier has characters.
\<close>

theorem list_entries_format:
  "fst (list_entries__unsafe tn p (s\<lparr>mapping := []\<rparr>))
     = ''+---------------------------------------------\<newline>| Codex:\<newline>+---------------------------------------------\<newline>''
   \<and> fst (list_entries__unsafe tn p s)
     = ''+---------------------------------------------\<newline>| Codex:\<newline>''
       @ concat (map (\<lambda>(first, second). listing_row first (get_repr tn second)) (mapping s))
       @ ''+---------------------------------------------\<newline>''"
  by (simp add: list_entries__unsafe_def Let_def content_loop_eq)

theorem list_entries_format_witness:
  "fst (list_entries__unsafe (\<lambda>K. ''N2dh5codex5ThingE'') False family_codex)
     = ''+---------------------------------------------\<newline>| Codex:\<newline>|    [a0] <'' @ [CHR 0x27] @ ''N2dh5codex5ThingE'' @ [CHR 0x27] @ '' object at [a0]>\<newline>|    [c1] b\<newline>|         continued\<newline>|    [p1] parent\<newline>+---------------------------------------------\<newline>''"
  by (simp add: list_entries_format family_codex_def plain_thing_def child_thing_def
      parent_thing_def listing_row_def continuation_indent_def get_repr_def get_uuid_def)

subsection \<open>Insertion under an identifier that is present\<close>

text \<open>
  Claim C1, as the code has it.  \<^verbatim>\<open>add__unsafe\<close> has no collision failure.  When the
  identifier of the Thing is already a key of the map, the new Thing is stored under it
  in place of the old one, with the number of entries, every other entry, the mutex and
  the output as before, and in that state the destructor of the old Thing runs.  The
  call returns what \<^verbatim>\<open>at(uuid)\<close> finds in the state the destructor leaves; when the
  destructor leaves the map as it is (as \<^verbatim>\<open>~Thing\<close> of the header does) that is a
  pointer to the new Thing.
\<close>

theorem add__unsafe_replaces_present_entry:
  "codex_inv s \<Longrightarrow> map_find (mapping s) (get_uuid t) = Some old \<Longrightarrow>
   is_base_of T (dyn_kind t) \<Longrightarrow>
   (let stored = s\<lparr>mapping := map_assign (mapping s) (get_uuid t) t\<rparr>
    in add__unsafe_with dtor T (Some t) s
         = (case map_find (mapping (dtor old stored)) (get_uuid t) of
              None \<Rightarrow> Inl Out_of_range
            | Some p \<Rightarrow> Inr (dynamic_cast T (Some p), dtor old stored))
     \<and> get__unsafe T (get_uuid t) stored = Some t
     \<and> size__unsafe stored = size__unsafe s
     \<and> (\<forall>u K. u \<noteq> get_uuid t \<longrightarrow> get__unsafe K u stored = get__unsafe K u s)
     \<and> mutex_locked stored = mutex_locked s \<and> cout stored = cout s
     \<and> codex_inv stored
     \<and> ((\<forall>x. mapping (dtor old x) = mapping x) \<longrightarrow>
          add__unsafe_with dtor T (Some t) s = Inr (Some t, dtor old stored)
          \<and> mapping (dtor old stored) = mapping stored))"
proof -
  assume inv: "codex_inv s" and present: "map_find (mapping s) (get_uuid t) = Some old"
    and typed: "is_base_of T (dyn_kind t)"
  let ?stored = "s\<lparr>mapping := map_assign (mapping s) (get_uuid t) t\<rparr>"
  from present have call: "add__unsafe_with dtor T (Some t) s
         = (case map_find (mapping (dtor old ?stored)) (get_uuid t) of
              None \<Rightarrow> Inl Out_of_range
            | Some p \<Rightarrow> Inr (dynamic_cast T (Some p), dtor old ?stored))"
    by (simp add: add__unsafe_with_def Let_def split: option.splits)
  from typed have found: "get__unsafe T (get_uuid t) ?stored = Some t"
    by (simp add: get__unsafe_eq map_find_assign_same dynamic_cast_def)
  from inv present have size: "size__unsafe ?stored = size__unsafe s"
    by (simp add: size__unsafe_def map_size_def codex_inv_def length_map_assign)
  have others: "\<forall>u K. u \<noteq> get_uuid t \<longrightarrow> get__unsafe K u ?stored = get__unsafe K u s"
    by (simp add: get__unsafe_eq map_find_assign_other)
  have gate: "mutex_locked ?stored = mutex_locked s" and out: "cout ?stored = cout s"
    by simp_all
  from inv have inv': "codex_inv ?stored" by (rule codex_inv_assign)
  have quiet: "add__unsafe_with dtor T (Some t) s = Inr (Some t, dtor old ?stored)
          \<and> mapping (dtor old ?stored) = mapping ?stored"
    if q: "\<forall>x. mapping (dtor old x) = mapping x"
  proof -
    from q have m: "mapping (dtor old ?stored) = mapping ?stored" by (rule spec)
    then have "map_find (mapping (dtor old ?stored)) (get_uuid t) = Some t"
      by (simp add: map_find_assign_same)
    with typed have r: "add__unsafe_with dtor T (Some t) s = Inr (Some t, dtor old ?stored)"
      by (simp add: call dynamic_cast_def)
    from r m show ?thesis by (rule conjI)
  qed
  show ?thesis
    unfolding Let_def
  proof (intro conjI impI)
    show "add__unsafe_with dtor T (Some t) s
         = (case map_find (mapping (dtor old ?stored)) (get_uuid t) of
              None \<Rightarrow> Inl Out_of_range
            | Some p \<Rightarrow> Inr (dynamic_cast T (Some p), dtor old ?stored))"
      by (rule call)
    show "get__unsafe T (get_uuid t) ?stored = Some t" by (rule found)
    show "size__unsafe ?stored = size__unsafe s" by (rule size)
    show "\<forall>u K. u \<noteq> get_uuid t \<longrightarrow> get__unsafe K u ?stored = get__unsafe K u s"
      by (rule others)
    show "mutex_locked ?stored = mutex_locked s" by (rule gate)
    show "cout ?stored = cout s" by (rule out)
    show "codex_inv ?stored" by (rule inv')
  next
    assume q: "\<forall>x. mapping (dtor old x) = mapping x"
    from quiet [OF q]
    show "add__unsafe_with dtor T (Some t) s = Inr (Some t, dtor old ?stored)" ..
    from quiet [OF q]
    show "mapping (dtor old ?stored) = mapping ?stored" ..
  qed
qed

theorem add__unsafe_collision_counterexample:
  "get__unsafe Parent_kind ''p1'' family_codex = Some parent_thing
   \<and> get_uuid parent_copy = ''p1''
   \<and> add__unsafe Parent_kind (Some parent_copy) family_codex
       = Inr (Some parent_copy,
              \<lparr>mapping = [(''a0'', plain_thing), (''c1'', child_thing), (''p1'', parent_copy)],
               mutex_locked = False, cout = []\<rparr>)
   \<and> parent_copy \<noteq> parent_thing"
  by (simp add: add__unsafe_Some get__unsafe_eq dynamic_cast_def family_codex_def
      parent_thing_def parent_copy_def Parent_kind_def get_uuid_def)

theorem add__unsafe_replaces_present_entry_witness:
  "codex_inv family_codex
   \<and> map_find (mapping family_codex) (get_uuid parent_copy) = Some parent_thing
   \<and> is_base_of Parent_kind (dyn_kind parent_copy)
   \<and> add__unsafe_with farewell_destructor Parent_kind (Some parent_copy) family_codex
       = Inr (Some parent_copy,
              \<lparr>mapping = [(''a0'', plain_thing), (''c1'', child_thing), (''p1'', parent_copy)],
               mutex_locked = False, cout = ''bye p1''\<rparr>)
   \<and> get__unsafe Child_kind ''c1''
        (family_codex\<lparr>mapping := map_assign (mapping family_codex) ''p1'' parent_copy\<rparr>)
       = Some child_thing
   \<and> size__unsafe
        (family_codex\<lparr>mapping := map_assign (mapping family_codex) ''p1'' parent_copy\<rparr>) = 3"
proof -
  have present: "map_find (mapping family_codex) (get_uuid parent_copy) = Some parent_thing"
    by (simp add: family_codex_def parent_copy_def get_uuid_def)
  have typed: "is_base_of Parent_kind (dyn_kind parent_copy)"
    by (simp add: parent_copy_def is_base_of_refl)
  have u: "get_uuid parent_copy = ''p1''"
    by (simp add: parent_copy_def get_uuid_def)
  have quiet: "\<forall>x. mapping (farewell_destructor parent_thing x) = mapping x"
    by (simp add: farewell_destructor_def)
  have three: "size__unsafe family_codex = 3"
    by (simp add: size__unsafe_def map_size_def family_codex_def)
  have child: "get__unsafe Child_kind ''c1'' family_codex = Some child_thing"
    by (simp add: get__unsafe_eq dynamic_cast_def family_codex_def child_thing_def
        is_base_of_refl)
  have left: "farewell_destructor parent_thing
        (family_codex\<lparr>mapping := map_assign (mapping family_codex) ''p1'' parent_copy\<rparr>)
      = \<lparr>mapping = [(''a0'', plain_thing), (''c1'', child_thing), (''p1'', parent_copy)],
         mutex_locked = False, cout = ''bye p1''\<rparr>"
    by (simp add: farewell_destructor_def family_codex_def parent_thing_def get_uuid_def)
  note inst = add__unsafe_replaces_present_entry
    [where dtor = farewell_destructor, OF family_codex_inv present typed,
     unfolded Let_def u]
  note size = inst [THEN conjunct2, THEN conjunct2, THEN conjunct1]
  note others = inst [THEN conjunct2, THEN conjunct2, THEN conjunct2, THEN conjunct1]
  note silent = inst [THEN conjunct2, THEN conjunct2, THEN conjunct2, THEN conjunct2,
    THEN conjunct2, THEN conjunct2, THEN conjunct2, rule_format, OF quiet [rule_format], THEN conjunct1]
  from silent have a:
    "add__unsafe_with farewell_destructor Parent_kind (Some parent_copy) family_codex
       = Inr (Some parent_copy,
              \<lparr>mapping = [(''a0'', plain_thing), (''c1'', child_thing), (''p1'', parent_copy)],
               mutex_locked = False, cout = ''bye p1''\<rparr>)"
    by (simp only: left)
  from others [rule_format, of "''c1''" Child_kind] child have b: "get__unsafe Child_kind ''c1''
        (family_codex\<lparr>mapping := map_assign (mapping family_codex) ''p1'' parent_copy\<rparr>)
       = Some child_thing"
    by simp
  from size three have c: "size__unsafe
        (family_codex\<lparr>mapping := map_assign (mapping family_codex) ''p1'' parent_copy\<rparr>) = 3"
    by (simp only:)
  from family_codex_inv present typed a b c show ?thesis by (intro conjI)
qed

subsection \<open>The destructor runs inside the removal\<close>

text \<open>
  Claim C3, as the code has it.  \<^verbatim>\<open>remove__unsafe\<close> calls no hook of its own between the
  lookup and \<^verbatim>\<open>erase\<close>: the hook is the destructor of the Thing, which \<^verbatim>\<open>erase\<close> runs
  once.  In the state in which it is started every entry under another identifier is
  as before the call, and so is the mutex; the entry of the identifier itself is gone
  when the library takes the node out first, and is still there when the library
  destroys the value first.  For a destructor that leaves the map as it is, the call
  returns \<open>SUCCESS\<close> and the state the destructor left, without the entry.
\<close>

theorem destructor_runs_inside_erase:
  "map_find (mapping s) u = Some t \<Longrightarrow> \<forall>x. mapping (dtor t x) = mapping x \<Longrightarrow>
     remove__unsafe_with ord dtor u s
       = (SUCCESS, (dtor t (hook_state ord u s))\<lparr>mapping := map_erase (mapping s) u\<rparr>)
   \<and> (\<forall>u' K. u' \<noteq> u \<longrightarrow> get__unsafe K u' (hook_state ord u s) = get__unsafe K u' s)
   \<and> mutex_locked (hook_state ord u s) = mutex_locked s
   \<and> get__unsafe K u (hook_state Unlink_first u s) = None
   \<and> get__unsafe Thing_kind u (hook_state Destroy_first u s) = Some t"
proof -
  assume present: "map_find (mapping s) u = Some t"
    and quiet: "\<forall>x. mapping (dtor t x) = mapping x"
  have result: "remove__unsafe_with ord dtor u s
       = (SUCCESS, (dtor t (hook_state ord u s))\<lparr>mapping := map_erase (mapping s) u\<rparr>)"
  proof (cases ord)
    case Unlink_first
    from quiet have "mapping (dtor t (unlink u s)) = map_erase (mapping s) u"
      by (simp add: unlink_def)
    then have "(dtor t (unlink u s))\<lparr>mapping := map_erase (mapping s) u\<rparr> = dtor t (unlink u s)"
      by (metis codex.surjective codex.update_convs(1))
    with Unlink_first show ?thesis
      by (simp add: remove__unsafe_with_present [OF present] hook_state_def)
  next
    case Destroy_first
    from quiet have "mapping (dtor t s) = mapping s" by simp
    with Destroy_first show ?thesis
      by (simp add: remove__unsafe_with_present [OF present] hook_state_def unlink_def)
  qed
  have siblings: "\<forall>u' K. u' \<noteq> u \<longrightarrow> get__unsafe K u' (hook_state ord u s) = get__unsafe K u' s"
    by (cases ord) (simp_all add: hook_state_def unlink_def get__unsafe_eq map_find_erase_other)
  have gate: "mutex_locked (hook_state ord u s) = mutex_locked s"
    by (cases ord) (simp_all add: hook_state_def unlink_def)
  have gone: "get__unsafe K u (hook_state Unlink_first u s) = None"
    by (simp add: hook_state_def unlink_def get__unsafe_eq map_find_erase_same dynamic_cast_def)
  from present have there: "get__unsafe Thing_kind u (hook_state Destroy_first u s) = Some t"
    by (simp add: hook_state_def get__unsafe_eq dynamic_cast_Thing_kind)
  from result siblings gate gone there show ?thesis by (intro conjI)
qed

theorem hook_sees_entry_counterexample:
  "get__unsafe Thing_kind ''p1'' family_codex = Some parent_thing
   \<and> remove__unsafe_with Unlink_first resolving_destructor ''p1'' family_codex
       = (SUCCESS,
          \<lparr>mapping = [(''a0'', plain_thing), (''c1'', child_thing)],
           mutex_locked = False, cout = ''absent''\<rparr>)"
  by (simp add: remove__unsafe_with_def erase_with_def hook_state_def unlink_def
      resolving_destructor_def get__unsafe_eq dynamic_cast_Thing_kind family_codex_def
      parent_thing_def get_uuid_def)

theorem destructor_runs_inside_erase_witness:
  "map_find (mapping family_codex) ''p1'' = Some parent_thing
   \<and> remove__unsafe_with Unlink_first resolving_destructor ''p1'' family_codex
       = (SUCCESS,
          \<lparr>mapping = [(''a0'', plain_thing), (''c1'', child_thing)],
           mutex_locked = False, cout = ''absent''\<rparr>)
   \<and> remove__unsafe_with Destroy_first resolving_destructor ''p1'' family_codex
       = (SUCCESS,
          \<lparr>mapping = [(''a0'', plain_thing), (''c1'', child_thing)],
           mutex_locked = False, cout = ''present''\<rparr>)
   \<and> get__unsafe Child_kind ''c1'' (hook_state Unlink_first ''p1'' family_codex)
       = Some child_thing
   \<and> get__unsafe Parent_kind ''p1'' (hook_state Unlink_first ''p1'' family_codex) = None"
proof -
  have present: "map_find (mapping family_codex) ''p1'' = Some parent_thing"
    by (simp add: family_codex_def)
  have quiet: "\<forall>x. mapping (resolving_destructor parent_thing x) = mapping x"
    by (simp add: resolving_destructor_def)
  have child: "get__unsafe Child_kind ''c1'' family_codex = Some child_thing"
    by (simp add: get__unsafe_eq dynamic_cast_def family_codex_def child_thing_def
        is_base_of_refl)
  have erased: "map_erase (mapping family_codex) ''p1''
      = [(''a0'', plain_thing), (''c1'', child_thing)]"
    by (simp add: family_codex_def)
  have seen_u: "resolving_destructor parent_thing (hook_state Unlink_first ''p1'' family_codex)
      = \<lparr>mapping = [(''a0'', plain_thing), (''c1'', child_thing)],
         mutex_locked = False, cout = ''absent''\<rparr>"
    by (simp add: resolving_destructor_def hook_state_def unlink_def get__unsafe_eq
        dynamic_cast_Thing_kind family_codex_def parent_thing_def get_uuid_def)
  have seen_d: "resolving_destructor parent_thing (hook_state Destroy_first ''p1'' family_codex)
      = \<lparr>mapping = [(''a0'', plain_thing), (''c1'', child_thing), (''p1'', parent_thing)],
         mutex_locked = False, cout = ''present''\<rparr>"
    by (simp add: resolving_destructor_def hook_state_def get__unsafe_eq
        dynamic_cast_Thing_kind family_codex_def parent_thing_def get_uuid_def)
  note u = destructor_runs_inside_erase
    [where dtor = resolving_destructor and ord = Unlink_first and K = Parent_kind,
     OF present quiet]
  note d = destructor_runs_inside_erase
    [where dtor = resolving_destructor and ord = Destroy_first and K = Parent_kind,
     OF present quiet]
  from u have a: "remove__unsafe_with Unlink_first resolving_destructor ''p1'' family_codex
       = (SUCCESS,
          \<lparr>mapping = [(''a0'', plain_thing), (''c1'', child_thing)],
           mutex_locked = False, cout = ''absent''\<rparr>)"
    by (simp add: seen_u erased)
  from d have b: "remove__unsafe_with Destroy_first resolving_destructor ''p1'' family_codex
       = (SUCCESS,
          \<lparr>mapping = [(''a0'', plain_thing), (''c1'', child_thing)],
           mutex_locked = False, cout = ''present''\<rparr>)"
    by (simp add: seen_d erased)
  from u child have c: "get__unsafe Child_kind ''c1'' (hook_state Unlink_first ''p1'' family_codex)
       = Some child_thing"
    by simp
  from u have e: "get__unsafe Parent_kind ''p1'' (hook_state Unlink_first ''p1'' family_codex) = None"
    by blast
  from present a b c e show ?thesis by (intro conjI)
qed

subsection \<open>The size after a run of insertions and removals\<close>

text \<open>
  Claim C5, as the code has it.  For Things whose destructors leave the map as it is,
  and either order of the library, every sequence of insertions and removals run from
  the empty Codex ends without an exception, and then the size plus the number of
  removals that returned \<open>SUCCESS\<close> is the number of insertions whose identifier was
  absent when they ran: an insertion under an identifier that is present replaces the
  entry and leaves the size as it was.
\<close>

theorem size_counts_fresh_insertions:
  "\<forall>t x. mapping (dtor t x) = mapping x \<Longrightarrow>
   \<exists>s'. run ord dtor ops codex_init = Inr s'
      \<and> size__unsafe s' + successful_removals ord dtor ops codex_init
          = fresh_insertions ord dtor ops codex_init"
proof -
  assume quiet: "\<forall>t x. mapping (dtor t x) = mapping x"
  from size_after_run [OF quiet codex_inv_init, of ord ops]
  show ?thesis by (auto simp: size__unsafe_def map_size_def codex_init_def)
qed

theorem size_counts_insertions_counterexample:
  "run Unlink_first Thing_destructor
       [Insert Parent_kind parent_thing, Insert Parent_kind parent_copy] codex_init
     = Inr \<lparr>mapping = [(''p1'', parent_copy)], mutex_locked = False, cout = []\<rparr>
   \<and> int (size__unsafe \<lparr>mapping = [(''p1'', parent_copy)], mutex_locked = False, cout = []\<rparr>)
       \<noteq> int (insertions [Insert Parent_kind parent_thing, Insert Parent_kind parent_copy])
          - int (successful_removals Unlink_first Thing_destructor
                   [Insert Parent_kind parent_thing, Insert Parent_kind parent_copy] codex_init)"
  by (simp add: add__unsafe_with_Thing_destructor add__unsafe_Some size__unsafe_def map_size_def
      codex_init_def parent_thing_def parent_copy_def get_uuid_def dynamic_cast_def)

theorem size_counts_fresh_insertions_witness:
  "run Destroy_first farewell_destructor
       [Insert Parent_kind parent_thing, Insert Parent_kind parent_copy,
        Remove ''p1'', Remove ''p1''] codex_init
     = Inr \<lparr>mapping = [], mutex_locked = False, cout = ''bye p1bye p1''\<rparr>
   \<and> fresh_insertions Destroy_first farewell_destructor
       [Insert Parent_kind parent_thing, Insert Parent_kind parent_copy,
        Remove ''p1'', Remove ''p1''] codex_init = 1
   \<and> successful_removals Destroy_first farewell_destructor
       [Insert Parent_kind parent_thing, Insert Parent_kind parent_copy,
        Remove ''p1'', Remove ''p1''] codex_init = 1"
proof -
  let ?ops = "[Insert Parent_kind parent_thing, Insert Parent_kind parent_copy,
               Remove ''p1'', Remove ''p1'']"
  have quiet: "\<forall>t x. mapping (farewell_destructor t x) = mapping x"
    by (simp add: farewell_destructor_def)
  have r: "run Destroy_first farewell_destructor ?ops codex_init
     = Inr \<lparr>mapping = [], mutex_locked = False, cout = ''bye p1bye p1''\<rparr>"
    by (simp add: add__unsafe_with_def remove__unsafe_with_def erase_with_def hook_state_def
        unlink_def farewell_destructor_def get__unsafe_eq dynamic_cast_def Let_def
        codex_init_def parent_thing_def parent_copy_def get_uuid_def is_base_of_Thing_kind
        Parent_kind_def)
  have f: "fresh_insertions Destroy_first farewell_destructor ?ops codex_init = 1"
    by (simp add: add__unsafe_with_def remove__unsafe_with_def erase_with_def hook_state_def
        unlink_def farewell_destructor_def get__unsafe_eq dynamic_cast_def Let_def
        codex_init_def parent_thing_def parent_copy_def get_uuid_def is_base_of_Thing_kind
        Parent_kind_def)
  from size_counts_fresh_insertions [where dtor = farewell_destructor, OF quiet,
      of Destroy_first ?ops]
  obtain s' where r': "run Destroy_first farewell_destructor ?ops codex_init = Inr s'"
    and eq: "size__unsafe s' + successful_removals Destroy_first farewell_destructor ?ops codex_init
          = fresh_insertions Destroy_first farewell_destructor ?ops codex_init"
    by blast
  from r r' have "s' = \<lparr>mapping = [], mutex_locked = False, cout = ''bye p1bye p1''\<rparr>"
    by simp
  then have "size__unsafe s' = 0" by (simp add: size__unsafe_def map_size_def)
  with eq f have "successful_removals Destroy_first farewell_destructor ?ops codex_init = 1"
    by simp
  with r f show ?thesis by (intro conjI)
qed

subsection \<open>Minted identifiers\<close>

text \<open>
  Claim C7, as the code has it.  \<^verbatim>\<open>_new_uuid\<close> returns the text of the platform facility
  when the facility reports success, a text that is not empty whenever the
  facility's is; when a Windows call reports a failure it returns the empty string and
  appends the diagnostic line to the standard output, and it prints nothing else.  The
  constructor takes what \<^verbatim>\<open>_new_uuid\<close> returned, and \<^verbatim>\<open>create\<close> stores the Thing under it
  and returns a pointer to it whenever the mutex is free: no failure of the facility
  reaches the caller.  Every run of \<^verbatim>\<open>create\<close> and \<^verbatim>\<open>remove\<close> calls from the empty Codex
  ends in a state in which no identifier is the key of two entries, every Thing is
  stored under its own identifier, the output is the diagnostics of the failed calls in
  order, and every identifier has a property \<open>P\<close> (not being empty, being canonical)
  that the text of each call of the facility has, provided every call succeeded.
\<close>

theorem minting_and_created_identifiers:
  "fst (new_uuid p s) = (if facility_succeeded p then facility_text p else [])
   \<and> (facility_succeeded p \<longrightarrow> facility_text p \<noteq> [] \<longrightarrow> fst (new_uuid p s) \<noteq> [])
   \<and> snd (new_uuid p s) = s\<lparr>cout := cout s @ diagnostic p\<rparr>
   \<and> (diagnostic p = []) = facility_succeeded p
   \<and> get_uuid (fst (Thing p s)) = fst (new_uuid p s)
   \<and> create p s
       = (if mutex_locked s then Inl Deadlock
          else Inr (Some (fst (Thing p s)),
                    s\<lparr>mapping := map_assign (mapping s) (fst (new_uuid p s)) (fst (Thing p s)),
                      cout := cout s @ diagnostic p\<rparr>))
   \<and> (\<exists>s'. calls cs codex_init = Inr s'
         \<and> distinct (map fst (mapping s'))
         \<and> list_all (\<lambda>(first, second). first = get_uuid second) (mapping s')
         \<and> cout s' = concat (map diagnostic (facilities cs))
         \<and> ((\<forall>q \<in> set (facilities cs). facility_succeeded q \<and> P (facility_text q))
              \<longrightarrow> (\<forall>k \<in> fst ` set (mapping s'). P k)))"
proof -
  have free: "\<not> mutex_locked codex_init" by (simp add: codex_init_def)
  from calls_invariant [OF codex_inv_init free, of cs] obtain s' where
    r: "calls cs codex_init = Inr s'" and inv': "codex_inv s'"
    and out: "cout s' = cout codex_init @ concat (map diagnostic (facilities cs))"
    and keys: "fst ` set (mapping s')
        \<subseteq> fst ` set (mapping codex_init)
            \<union> (\<lambda>q. fst (new_uuid q codex_init)) ` set (facilities cs)"
    by blast
  from inv' have d: "distinct (map fst (mapping s'))"
    and own: "list_all (\<lambda>(first, second). first = get_uuid second) (mapping s')"
    by (simp_all add: codex_inv_def sorted_keys_distinct)
  from out have out': "cout s' = concat (map diagnostic (facilities cs))"
    by (simp add: codex_init_def)
  have good: "\<forall>k \<in> fst ` set (mapping s'). P k"
    if ok: "\<forall>q \<in> set (facilities cs). facility_succeeded q \<and> P (facility_text q)"
  proof
    fix k
    assume "k \<in> fst ` set (mapping s')"
    with keys obtain q where q: "q \<in> set (facilities cs)" and k: "k = fst (new_uuid q codex_init)"
      by (auto simp: codex_init_def)
    from ok q have "facility_succeeded q" and "P (facility_text q)" by blast+
    with k show "P k" by (simp add: new_uuid_fst)
  qed
  from r d own out' good have run: "\<exists>s'. calls cs codex_init = Inr s'
         \<and> distinct (map fst (mapping s'))
         \<and> list_all (\<lambda>(first, second). first = get_uuid second) (mapping s')
         \<and> cout s' = concat (map diagnostic (facilities cs))
         \<and> ((\<forall>q \<in> set (facilities cs). facility_succeeded q \<and> P (facility_text q))
              \<longrightarrow> (\<forall>k \<in> fst ` set (mapping s'). P k))"
    by blast
  have ctor: "get_uuid (fst (Thing p s)) = fst (new_uuid p s)"
    by (simp add: Thing_eq get_uuid_def)
  have nonempty: "facility_succeeded p \<longrightarrow> facility_text p \<noteq> [] \<longrightarrow> fst (new_uuid p s) \<noteq> []"
    by (simp add: new_uuid_fst)
  from new_uuid_fst [of p s] nonempty new_uuid_snd [of p s] diagnostic_empty_iff [of p] ctor
    create_eq [of p s] run
  show ?thesis by (intro conjI)
qed

theorem minting_nonempty_counterexample:
  "fst (new_uuid (Win32 1739 0 []) codex_init) = []
   \<and> create (Win32 1739 0 []) codex_init
       = Inr (Some \<lparr>uuid = [], dyn_kind = Thing_kind, repr_override = None\<rparr>,
              \<lparr>mapping = [([], \<lparr>uuid = [], dyn_kind = Thing_kind, repr_override = None\<rparr>)],
               mutex_locked = False,
               cout = ''Unexpected error retrieveing UUID! Error code: 1739\<newline>''\<rparr>)"
  by (simp add: create_def Thing_def add_def lock_guard_def add__unsafe_Some dynamic_cast_def
      codex_init_def get_uuid_def show_long_def show_nat.simps)

theorem minting_and_created_identifiers_witness:
  "fst (new_uuid (Win32 0 0 ''6f9619ff-8b86-d011-b42d-00c04fc964ff'') codex_init)
     = ''6f9619ff-8b86-d011-b42d-00c04fc964ff''
   \<and> fst (new_uuid (Win32 0 0 ''6f9619ff-8b86-d011-b42d-00c04fc964ff'') codex_init) \<noteq> []
   \<and> fst (new_uuid (Win32 1739 0 []) codex_init) = []
   \<and> cout (snd (new_uuid (Win32 1739 0 []) codex_init))
       = ''Unexpected error retrieveing UUID! Error code: 1739\<newline>''
   \<and> (\<exists>s'. calls [Create (Linux ''1b4e28ba-2fa1-11d2-883f-0016d3cca427''),
                    Create (Win32 0 0 ''6f9619ff-8b86-d011-b42d-00c04fc964ff''),
                    Remove_call ''1b4e28ba-2fa1-11d2-883f-0016d3cca427''] codex_init = Inr s'
          \<and> distinct (map fst (mapping s')) \<and> [] \<notin> fst ` set (mapping s') \<and> cout s' = [])
   \<and> (\<exists>s'. calls [Create (Win32 0 1 ''6f9619ff-8b86-d011-b42d-00c04fc964ff'')] codex_init
            = Inr s'
          \<and> cout s' = ''Unexpected error converting UUID to string! Error code: 1\<newline>'')"
proof -
  let ?a = "''6f9619ff-8b86-d011-b42d-00c04fc964ff''"
  let ?b = "''1b4e28ba-2fa1-11d2-883f-0016d3cca427''"
  let ?good = "[Create (Linux ?b), Create (Win32 0 0 ?a), Remove_call ?b]"
  let ?bad = "[Create (Win32 0 1 ?a)]"
  note ok = minting_and_created_identifiers
    [where p = "Win32 0 0 ?a" and s = codex_init and cs = ?good and P = "\<lambda>k. k \<noteq> []"]
  note failed = minting_and_created_identifiers
    [where p = "Win32 1739 0 []" and s = codex_init and cs = ?bad and P = "\<lambda>k. k \<noteq> []"]
  note ok_run = ok [THEN conjunct2, THEN conjunct2, THEN conjunct2, THEN conjunct2,
    THEN conjunct2, THEN conjunct2]
  note failed_run = failed [THEN conjunct2, THEN conjunct2, THEN conjunct2, THEN conjunct2,
    THEN conjunct2, THEN conjunct2]
  from ok [THEN conjunct1] have a1: "fst (new_uuid (Win32 0 0 ?a) codex_init) = ?a" by simp
  from ok [THEN conjunct2, THEN conjunct1]
  have a2: "fst (new_uuid (Win32 0 0 ?a) codex_init) \<noteq> []" by simp
  from failed [THEN conjunct1] have f1: "fst (new_uuid (Win32 1739 0 []) codex_init) = []"
    by simp
  from failed [THEN conjunct2, THEN conjunct2, THEN conjunct1]
  have f2: "cout (snd (new_uuid (Win32 1739 0 []) codex_init))
       = ''Unexpected error retrieveing UUID! Error code: 1739\<newline>''"
    by (simp add: codex_init_def show_long_def show_nat.simps)
  have all_ok: "\<forall>q \<in> set (facilities ?good). facility_succeeded q \<and> facility_text q \<noteq> []"
    by simp
  have quiet: "concat (map diagnostic (facilities ?good)) = []" by simp
  from ok_run obtain s' where h: "calls ?good codex_init = Inr s'
      \<and> distinct (map fst (mapping s'))
      \<and> list_all (\<lambda>(first, second). first = get_uuid second) (mapping s')
      \<and> cout s' = concat (map diagnostic (facilities ?good))
      \<and> ((\<forall>q \<in> set (facilities ?good). facility_succeeded q \<and> facility_text q \<noteq> [])
          \<longrightarrow> (\<forall>k \<in> fst ` set (mapping s'). k \<noteq> []))" ..
  note h1 = h [THEN conjunct1]
  note h2 = h [THEN conjunct2, THEN conjunct1]
  note h4 = h [THEN conjunct2, THEN conjunct2, THEN conjunct2, THEN conjunct1]
  note h5 = h [THEN conjunct2, THEN conjunct2, THEN conjunct2, THEN conjunct2, THEN mp,
    OF all_ok]
  from h5 have ne: "[] \<notin> fst ` set (mapping s')" by blast
  from h4 quiet have q: "cout s' = []" by (simp only:)
  have g: "\<exists>s'. calls ?good codex_init = Inr s'
      \<and> distinct (map fst (mapping s')) \<and> [] \<notin> fst ` set (mapping s') \<and> cout s' = []"
  proof (intro exI conjI)
    show "calls ?good codex_init = Inr s'" by (rule h1)
    show "distinct (map fst (mapping s'))" by (rule h2)
    show "[] \<notin> fst ` set (mapping s')" by (rule ne)
    show "cout s' = []" by (rule q)
  qed
  have loud: "concat (map diagnostic (facilities ?bad))
      = ''Unexpected error converting UUID to string! Error code: 1\<newline>''"
    by (simp add: show_long_def show_nat.simps)
  from failed_run obtain s'' where k: "calls ?bad codex_init = Inr s''
      \<and> distinct (map fst (mapping s''))
      \<and> list_all (\<lambda>(first, second). first = get_uuid second) (mapping s'')
      \<and> cout s'' = concat (map diagnostic (facilities ?bad))
      \<and> ((\<forall>q \<in> set (facilities ?bad). facility_succeeded q \<and> facility_text q \<noteq> [])
          \<longrightarrow> (\<forall>k \<in> fst ` set (mapping s''). k \<noteq> []))" ..
  note k1 = k [THEN conjunct1]
  note k4 = k [THEN conjunct2, THEN conjunct2, THEN conjunct2, THEN conjunct1]
  from k4 loud
  have kc: "cout s'' = ''Unexpected error converting UUID to string! Error code: 1\<newline>''"
    by (simp only:)
  have b: "\<exists>s'. calls ?bad codex_init = Inr s'
      \<and> cout s' = ''Unexpected error converting UUID to string! Error code: 1\<newline>''"
  proof (intro exI conjI)
    show "calls ?bad codex_init = Inr s''" by (rule k1)
    show "cout s'' = ''Unexpected error converting UUID to string! Error code: 1\<newline>''"
      by (rule kc)
  qed
  from a1 a2 f1 f2 g b show ?thesis by (intro conjI)
qed

end
